theory Spec2Isabelle
  imports Main
begin

section \<open>JavaScript values\<close>

text \<open>
  The relation matrices, the claim payloads and the relation cells of a question arrive
  as parsed JSON, and the functions under study inspect them dynamically
  (\<^verbatim>\<open>Array.isArray\<close>, \<^verbatim>\<open>typeof\<close>, truthiness). They are modelled by one datatype of
  values. Numbers are the integers (indices, counts and lengths are all the code
  computes with); a string is the list of the bytes of its UTF-8 form; an object is the
  association list of its own properties, keys unique.
\<close>

datatype jsval =
    JUndefined
  | JNull
  | JBool bool
  | JNum int
  | JStr string
  | JArr "jsval list"
  | JObj "(string \<times> jsval) list"

datatype js_error = TypeError | SyntaxError

text \<open>\<^verbatim>\<open>Array.isArray(v)\<close>.\<close>

definition isArray :: "jsval \<Rightarrow> bool" where
  "isArray v = (case v of JArr _ \<Rightarrow> True | _ \<Rightarrow> False)"

text \<open>Truthiness: \<^verbatim>\<open>undefined\<close>, \<^verbatim>\<open>null\<close>, \<^verbatim>\<open>false\<close>, \<^verbatim>\<open>0\<close> and \<^verbatim>\<open>''\<close> are falsy.\<close>

definition truthy :: "jsval \<Rightarrow> bool" where
  "truthy v = (case v of
      JUndefined \<Rightarrow> False
    | JNull \<Rightarrow> False
    | JBool b \<Rightarrow> b
    | JNum n \<Rightarrow> n \<noteq> 0
    | JStr s \<Rightarrow> s \<noteq> []
    | JArr _ \<Rightarrow> True
    | JObj _ \<Rightarrow> True)"

text \<open>\<^verbatim>\<open>a ?? b\<close> and \<^verbatim>\<open>a || b\<close>.\<close>

definition nullish :: "jsval \<Rightarrow> bool" where
  "nullish v = (v = JUndefined \<or> v = JNull)"

definition coalesce :: "jsval \<Rightarrow> jsval \<Rightarrow> jsval" where
  "coalesce a b = (if nullish a then b else a)"

definition js_or :: "jsval \<Rightarrow> jsval \<Rightarrow> jsval" where
  "js_or a b = (if truthy a then a else b)"

text \<open>Decimal form of a number, as \<^verbatim>\<open>String(n)\<close> and property keys print it.\<close>

definition digit_char :: "nat \<Rightarrow> char" where
  "digit_char d = ''0123456789'' ! d"

function show_nat :: "nat \<Rightarrow> string" where
  "show_nat n =
     (if n < 10 then [digit_char n] else show_nat (n div 10) @ [digit_char (n mod 10)])"
  by pat_completeness auto
termination
  by (relation "measure id") auto

declare show_nat.simps [simp del]

definition show_int :: "int \<Rightarrow> string" where
  "show_int i = (if i < 0 then CHR ''-'' # show_nat (nat (- i)) else show_nat (nat i))"

text \<open>
  Reading an element of an array: an index outside \<open>0 .. length - 1\<close> reads
  \<^verbatim>\<open>undefined\<close>.
\<close>

definition arr_at :: "jsval list \<Rightarrow> int \<Rightarrow> jsval" where
  "arr_at xs i = (if 0 \<le> i \<and> i < int (length xs) then xs ! nat i else JUndefined)"

text \<open>A named own property of an object.\<close>

definition obj_get :: "(string \<times> jsval) list \<Rightarrow> string \<Rightarrow> jsval" where
  "obj_get kvs k = (case map_of kvs k of Some v \<Rightarrow> v | None \<Rightarrow> JUndefined)"

text \<open>
  \<^verbatim>\<open>v[i]\<close> for a number \<open>i\<close>, and \<^verbatim>\<open>v.length\<close>. Both throw a TypeError on
  \<^verbatim>\<open>undefined\<close> and \<^verbatim>\<open>null\<close>, and on nothing else.
  On a string they count bytes where the code counts UTF-16 units: the character and the
  length read are those of the code on an ASCII string. Whether they throw does not
  depend on it.
\<close>

fun js_index :: "jsval \<Rightarrow> int \<Rightarrow> js_error + jsval" where
  "js_index JUndefined i = Inl TypeError"
| "js_index JNull i = Inl TypeError"
| "js_index (JArr xs) i = Inr (arr_at xs i)"
| "js_index (JStr s) i =
     Inr (if 0 \<le> i \<and> i < int (length s) then JStr [s ! nat i] else JUndefined)"
| "js_index (JObj kvs) i = Inr (obj_get kvs (show_int i))"
| "js_index (JBool b) i = Inr JUndefined"
| "js_index (JNum n) i = Inr JUndefined"

fun js_length :: "jsval \<Rightarrow> js_error + jsval" where
  "js_length JUndefined = Inl TypeError"
| "js_length JNull = Inl TypeError"
| "js_length (JArr xs) = Inr (JNum (int (length xs)))"
| "js_length (JStr s) = Inr (JNum (int (length s)))"
| "js_length (JObj kvs) = Inr (obj_get kvs ''length'')"
| "js_length (JBool b) = Inr JUndefined"
| "js_length (JNum n) = Inr JUndefined"

text \<open>\<^verbatim>\<open>v?.[i]\<close>: \<^verbatim>\<open>undefined\<close> on a nullish \<open>v\<close> instead of the TypeError.\<close>

definition js_index_opt :: "jsval \<Rightarrow> int \<Rightarrow> js_error + jsval" where
  "js_index_opt v i = (if nullish v then Inr JUndefined else js_index v i)"

section \<open>The relation matrix resolver (utils/relations.ts)\<close>

text \<open>
  The body of \<^verbatim>\<open>relAt\<close> is a sequence of statements, each of which either returns a
  value, falls through to the next statement, or throws. A statement's outcome is
  \<open>Inl e\<close> (threw \<open>e\<close>), \<open>Inr (Some v)\<close> (returned \<open>v\<close>) or \<open>Inr None\<close> (fell through).
\<close>

type_synonym outcome = "js_error + jsval option"

definition bind_e :: "js_error + 'a \<Rightarrow> ('a \<Rightarrow> js_error + 'b) \<Rightarrow> js_error + 'b" where
  "bind_e m f = (case m of Inl e \<Rightarrow> Inl e | Inr x \<Rightarrow> f x)"

definition seq :: "outcome \<Rightarrow> outcome \<Rightarrow> outcome" where
  "seq a b = (case a of Inr None \<Rightarrow> b | _ \<Rightarrow> a)"

text \<open>
  \<^verbatim>\<open>const row = matrix[a]; if (Array.isArray(row)) return row[b];\<close>
\<close>

definition index_row :: "jsval \<Rightarrow> int \<Rightarrow> int \<Rightarrow> outcome" where
  "index_row matrix a b =
     bind_e (js_index matrix a) (\<lambda>row.
       if isArray row then bind_e (js_index row b) (\<lambda>v. Inr (Some v)) else Inr None)"

text \<open>
  \<^verbatim>\<open>typeof count === 'number' && len === count\<close>; a count that was not passed
  (or is not a number) is \<open>None\<close>.
\<close>

definition count_is :: "int option \<Rightarrow> jsval \<Rightarrow> bool" where
  "count_is count len = (case count of Some c \<Rightarrow> len = JNum c | None \<Rightarrow> False)"

text \<open>
  \<^verbatim>\<open>const by = Array.isArray(matrix?.[a]) ? matrix[a] : undefined;\<close>
  \<^verbatim>\<open>if (Array.isArray(by) && by.length > b) return by[b];\<close>
  The length of an array is a number, so the comparison is one of numbers.
\<close>

definition index_direct :: "jsval \<Rightarrow> int \<Rightarrow> int \<Rightarrow> outcome" where
  "index_direct matrix a b =
     bind_e (js_index_opt matrix a) (\<lambda>probe.
     bind_e (if isArray probe then js_index matrix a else Inr JUndefined) (\<lambda>by.
       if isArray by
       then bind_e (js_length by) (\<lambda>len.
              case len of
                JNum n \<Rightarrow> if n > b then bind_e (js_index by b) (\<lambda>v. Inr (Some v)) else Inr None
              | _ \<Rightarrow> Inr None)
       else Inr None))"

definition relAt_body :: "jsval \<Rightarrow> int \<Rightarrow> int \<Rightarrow> int option \<Rightarrow> int option \<Rightarrow> outcome" where
  "relAt_body matrix chunkIdx claimIdx chunkCount claimCount =
     (if \<not> isArray matrix then Inr (Some JUndefined)
      else bind_e (js_length matrix) (\<lambda>outer.
        seq (if count_is chunkCount outer then index_row matrix chunkIdx claimIdx else Inr None)
       (seq (if count_is claimCount outer then index_row matrix claimIdx chunkIdx else Inr None)
       (seq (bind_e (js_index matrix 0) (\<lambda>first.
               if isArray first
               then bind_e (js_length first) (\<lambda>flen.
                 seq (if count_is claimCount flen
                      then index_row matrix chunkIdx claimIdx else Inr None)
                     (if count_is chunkCount flen
                      then index_row matrix claimIdx chunkIdx else Inr None))
               else Inr None))
       (seq (index_direct matrix chunkIdx claimIdx)
       (seq (index_direct matrix claimIdx chunkIdx)
            (Inr (Some JUndefined))))))))"

text \<open>The \<^verbatim>\<open>try { ... } catch { return undefined; }\<close> around the body.\<close>

definition relAt :: "jsval \<Rightarrow> int \<Rightarrow> int \<Rightarrow> int option \<Rightarrow> int option \<Rightarrow> jsval" where
  "relAt matrix chunkIdx claimIdx chunkCount claimCount =
     (case relAt_body matrix chunkIdx claimIdx chunkCount claimCount of
        Inl e \<Rightarrow> JUndefined
      | Inr None \<Rightarrow> JUndefined
      | Inr (Some v) \<Rightarrow> v)"

text \<open>
  On an array the body never throws, and its result is the first cell found by the chain
  below. These functions are that chain written over the list of rows; the lemmas
  \<open>relAt_body_JArr\<close> and \<open>relAt_JArr\<close> connect them to \<open>relAt\<close>.
\<close>

definition cell :: "jsval list \<Rightarrow> int \<Rightarrow> int \<Rightarrow> jsval option" where
  "cell rows a b = (case arr_at rows a of JArr r \<Rightarrow> Some (arr_at r b) | _ \<Rightarrow> None)"

definition cell_direct :: "jsval list \<Rightarrow> int \<Rightarrow> int \<Rightarrow> jsval option" where
  "cell_direct rows a b =
     (case arr_at rows a of
        JArr r \<Rightarrow> if int (length r) > b then Some (arr_at r b) else None
      | _ \<Rightarrow> None)"

definition first_len :: "jsval list \<Rightarrow> int option" where
  "first_len rows = (case arr_at rows 0 of JArr r \<Rightarrow> Some (int (length r)) | _ \<Rightarrow> None)"

definition pick :: "jsval option \<Rightarrow> jsval option \<Rightarrow> jsval option" where
  "pick a b = (case a of None \<Rightarrow> b | Some v \<Rightarrow> Some v)"

definition guarded :: "bool \<Rightarrow> jsval option \<Rightarrow> jsval option" where
  "guarded c x = (if c then x else None)"

definition chain :: "jsval list \<Rightarrow> int \<Rightarrow> int \<Rightarrow> int option \<Rightarrow> int option \<Rightarrow> jsval option" where
  "chain rows i j cc kc =
     pick (guarded (cc = Some (int (length rows))) (cell rows i j))
    (pick (guarded (kc = Some (int (length rows))) (cell rows j i))
    (pick (pick (guarded (first_len rows \<noteq> None \<and> kc = first_len rows) (cell rows i j))
                (guarded (first_len rows \<noteq> None \<and> cc = first_len rows) (cell rows j i)))
    (pick (cell_direct rows i j)
    (pick (cell_direct rows j i) (Some JUndefined)))))"

text \<open>A step that found nothing, or found \<open>undefined\<close>.\<close>

definition blank :: "jsval option \<Rightarrow> bool" where
  "blank x = (x = None \<or> x = Some JUndefined)"

text \<open>
  A matrix given by its rows, the shape \<open>a \<times> b\<close>, and the transpose of a matrix with
  \<open>b\<close> columns.
\<close>

definition matrix_of :: "jsval list list \<Rightarrow> jsval" where
  "matrix_of rows = JArr (map JArr rows)"

definition shaped :: "jsval list list \<Rightarrow> nat \<Rightarrow> nat \<Rightarrow> bool" where
  "shaped rows a b = (length rows = a \<and> list_all (\<lambda>r. length r = b) rows)"

definition transposeM :: "nat \<Rightarrow> jsval list list \<Rightarrow> jsval list list" where
  "transposeM b rows = map (\<lambda>j. map (\<lambda>r. r ! j) rows) [0..<b]"

section \<open>The irrelevance predicate (utils/relevance)\<close>

text \<open>
  A count argument is a number, \<^verbatim>\<open>NaN\<close>, or missing (\<^verbatim>\<open>undefined\<close>, \<open>None\<close>).
  \<^verbatim>\<open>Math.max(0, Number(x) || 0)\<close> sends \<^verbatim>\<open>undefined\<close>, \<^verbatim>\<open>NaN\<close> and every negative
  number to 0.
\<close>

datatype jsnumber = Num int | NaN

definition clamp_count :: "jsnumber option \<Rightarrow> int" where
  "clamp_count x =
     max 0 (case x of None \<Rightarrow> 0 | Some NaN \<Rightarrow> 0 | Some (Num k) \<Rightarrow> (if k \<noteq> 0 then k else 0))"

definition isIrrelevantFromCounts ::
    "jsnumber option \<Rightarrow> jsnumber option \<Rightarrow> jsnumber option \<Rightarrow> bool" where
  "isIrrelevantFromCounts gtEntailments gtNeutrals gtContradictions =
     (let e = clamp_count gtEntailments;
          n = clamp_count gtNeutrals;
          c = clamp_count gtContradictions
      in e = 0 \<and> c = 0 \<and> n > 0)"

record claim_sets =
  entailments :: "string list"
  contradictions :: "string list"
  neutrals :: "string list"

record chunk_sets =
  gt :: claim_sets
  response :: claim_sets

definition isIrrelevantFromSets :: "chunk_sets \<Rightarrow> bool" where
  "isIrrelevantFromSets sets =
     (let e = length (entailments (gt sets));
          n = length (neutrals (gt sets));
          c = length (contradictions (gt sets))
      in e = 0 \<and> c = 0 \<and> n > 0)"

section \<open>Strings\<close>

text \<open>
  \<^verbatim>\<open>String(v)\<close>. A number below \<open>10\<^sup>2\<^sup>1\<close> in magnitude prints in decimal; from there on
  \<^verbatim>\<open>Number.prototype.toString\<close> gives an exponent form, which is the platform's and is the
  parameter \<open>expo\<close>. An array prints its elements separated by commas, \<^verbatim>\<open>null\<close> and
  \<^verbatim>\<open>undefined\<close> elements as the empty string. An object prints as
  \<^verbatim>\<open>[object Object]\<close> through the inherited \<^verbatim>\<open>toString\<close>; an object with an own
  \<^verbatim>\<open>toString\<close> property (in parsed JSON never a function) has no primitive form, and
  the conversion throws a TypeError. The first element of an array that throws makes the
  array throw.
\<close>

fun join :: "string \<Rightarrow> string list \<Rightarrow> string" where
  "join sep [] = []"
| "join sep [x] = x"
| "join sep (x # y # ys) = x @ sep @ join sep (y # ys)"

fun all_ok :: "(js_error + 'a) list \<Rightarrow> js_error + 'a list" where
  "all_ok [] = Inr []"
| "all_ok (x # xs) =
     (case x of
        Inl e \<Rightarrow> Inl e
      | Inr v \<Rightarrow> (case all_ok xs of Inl e \<Rightarrow> Inl e | Inr vs \<Rightarrow> Inr (v # vs)))"

definition show_number :: "(int \<Rightarrow> string) \<Rightarrow> int \<Rightarrow> string" where
  "show_number expo n = (if \<bar>n\<bar> < 10 ^ 21 then show_int n else expo n)"

fun js_String :: "(int \<Rightarrow> string) \<Rightarrow> jsval \<Rightarrow> js_error + string" where
  "js_String expo JUndefined = Inr ''undefined''"
| "js_String expo JNull = Inr ''null''"
| "js_String expo (JBool b) = Inr (if b then ''true'' else ''false'')"
| "js_String expo (JNum n) = Inr (show_number expo n)"
| "js_String expo (JStr s) = Inr s"
| "js_String expo (JArr xs) =
     (case all_ok (map (\<lambda>v. if v = JUndefined \<or> v = JNull then Inr [] else js_String expo v) xs) of
        Inl e \<Rightarrow> Inl e
      | Inr ss \<Rightarrow> Inr (join '','' ss))"
| "js_String expo (JObj kvs) =
     (if map_of kvs ''toString'' = None then Inr ''[object Object]'' else Inl TypeError)"

text \<open>
  \<^verbatim>\<open>toLowerCase\<close>: the letters \<open>A\<close> to \<open>Z\<close> are lowered and every other byte is kept.
  The code only compares the lowered string with the words \<open>entailment\<close> and
  \<open>contradiction\<close>. Outside ASCII, the one character that Unicode lowers to an ASCII
  letter is the Kelvin sign, to \<open>k\<close>, which neither word contains; so on every string
  the two comparisons come out as they do in the code.
\<close>

definition lower_char :: "char \<Rightarrow> char" where
  "lower_char c =
     (case map_of (zip ''ABCDEFGHIJKLMNOPQRSTUVWXYZ'' ''abcdefghijklmnopqrstuvwxyz'') c of
        Some d \<Rightarrow> d
      | None \<Rightarrow> c)"

definition toLowerCase :: "string \<Rightarrow> string" where
  "toLowerCase s = map lower_char s"

text \<open>
  \<^verbatim>\<open>trim\<close> removes white space and line terminators from both ends. They are the code
  points U+0009 to U+000D, U+0020, U+00A0, U+1680, U+2000 to U+200A, U+2028, U+2029,
  U+202F, U+205F, U+3000 and U+FEFF, here in UTF-8. At the front, \<open>strip_front\<close> removes
  one of them as long as the string starts with one (a string of \<open>n\<close> bytes starts with
  at most \<open>n\<close>); at the back the same is done on the reversed string.
\<close>

definition white_space :: "string list" where
  "white_space =
     [[CHR 0x09], [CHR 0x0A], [CHR 0x0B], [CHR 0x0C], [CHR 0x0D], [CHR 0x20],
      [CHR 0xC2, CHR 0xA0],
      [CHR 0xE1, CHR 0x9A, CHR 0x80],
      [CHR 0xE2, CHR 0x80, CHR 0x80], [CHR 0xE2, CHR 0x80, CHR 0x81],
      [CHR 0xE2, CHR 0x80, CHR 0x82], [CHR 0xE2, CHR 0x80, CHR 0x83],
      [CHR 0xE2, CHR 0x80, CHR 0x84], [CHR 0xE2, CHR 0x80, CHR 0x85],
      [CHR 0xE2, CHR 0x80, CHR 0x86], [CHR 0xE2, CHR 0x80, CHR 0x87],
      [CHR 0xE2, CHR 0x80, CHR 0x88], [CHR 0xE2, CHR 0x80, CHR 0x89],
      [CHR 0xE2, CHR 0x80, CHR 0x8A],
      [CHR 0xE2, CHR 0x80, CHR 0xA8], [CHR 0xE2, CHR 0x80, CHR 0xA9],
      [CHR 0xE2, CHR 0x80, CHR 0xAF],
      [CHR 0xE2, CHR 0x81, CHR 0x9F],
      [CHR 0xE3, CHR 0x80, CHR 0x80],
      [CHR 0xEF, CHR 0xBB, CHR 0xBF]]"

definition match_len :: "string list \<Rightarrow> string \<Rightarrow> nat" where
  "match_len ws s =
     (case find (\<lambda>w. take (length w) s = w) ws of Some w \<Rightarrow> length w | None \<Rightarrow> 0)"

definition strip_front :: "string list \<Rightarrow> string \<Rightarrow> string" where
  "strip_front ws s = ((\<lambda>t. drop (match_len ws t) t) ^^ length s) s"

definition trim :: "string \<Rightarrow> string" where
  "trim s = rev (strip_front (map rev white_space) (rev (strip_front white_space s)))"

definition startsWith :: "string \<Rightarrow> char \<Rightarrow> bool" where
  "startsWith s c = (case s of [] \<Rightarrow> False | x # _ \<Rightarrow> x = c)"

definition endsWith :: "string \<Rightarrow> char \<Rightarrow> bool" where
  "endsWith s c = (s \<noteq> [] \<and> last s = c)"

text \<open>\<^verbatim>\<open>s.split('\n')\<close>: the pieces between line feeds, one more than there are line feeds.\<close>

fun split_lines :: "string \<Rightarrow> string list" where
  "split_lines [] = [[]]"
| "split_lines (c # cs) =
     (if c = CHR 0x0A then [] # split_lines cs
      else (case split_lines cs of [] \<Rightarrow> [[c]] | l # ls \<Rightarrow> (c # l) # ls))"

section \<open>Claims and statuses (components/QuestionInspector.tsx)\<close>

subsection \<open>Claim extraction\<close>

text \<open>
  \<^verbatim>\<open>p.text ?? p.claim ?? p.content ?? p.value\<close> for a value \<open>p\<close> that is truthy and of
  type \<^verbatim>\<open>'object'\<close>: an object or an array. An array has none of these properties.
\<close>

definition field_of :: "jsval \<Rightarrow> string \<Rightarrow> jsval" where
  "field_of p k = (case p of JObj kvs \<Rightarrow> obj_get kvs k | _ \<Rightarrow> JUndefined)"

definition text_field :: "jsval \<Rightarrow> jsval" where
  "text_field p =
     coalesce (field_of p ''text'')
       (coalesce (field_of p ''claim'')
         (coalesce (field_of p ''content'') (field_of p ''value'')))"

definition is_object :: "jsval \<Rightarrow> bool" where
  "is_object v = (case v of JObj _ \<Rightarrow> True | JArr _ \<Rightarrow> True | JNull \<Rightarrow> True | _ \<Rightarrow> False)"

text \<open>\<^verbatim>\<open>typeof s === 'string' && s.trim().length > 0\<close>, keeping the strings.\<close>

definition nonblank_strings :: "jsval list \<Rightarrow> string list" where
  "nonblank_strings vs =
     concat (map (\<lambda>v. case v of JStr s \<Rightarrow> if length (trim s) > 0 then [s] else [] | _ \<Rightarrow> []) vs)"

text \<open>The separator \<^verbatim>\<open>' \<emdash> '\<close>: a space, an em dash (three bytes in UTF-8), a space.\<close>

definition tuple_sep :: string where
  "tuple_sep = [CHR 0x20, CHR 0xE2, CHR 0x80, CHR 0x94, CHR 0x20]"

text \<open>One part of a tuple claim. A throw of \<^verbatim>\<open>String\<close> is passed on.\<close>

definition tuple_part :: "(int \<Rightarrow> string) \<Rightarrow> jsval \<Rightarrow> js_error + jsval" where
  "tuple_part expo p =
     (case p of
        JStr s \<Rightarrow> Inr (JStr s)
      | _ \<Rightarrow> if truthy p \<and> is_object p then Inr (coalesce (text_field p) (JStr []))
             else (case js_String expo (coalesce p (JStr [])) of
                     Inl e \<Rightarrow> Inl e
                   | Inr s \<Rightarrow> Inr (JStr s)))"

text \<open>What one element of the array pushes onto \<open>out\<close>.\<close>

definition claim_of_item :: "(int \<Rightarrow> string) \<Rightarrow> jsval \<Rightarrow> js_error + jsval list" where
  "claim_of_item expo item =
     (case item of
        JStr s \<Rightarrow> Inr [JStr s]
      | JArr ps \<Rightarrow>
          (case all_ok (map (tuple_part expo) ps) of
             Inl e \<Rightarrow> Inl e
           | Inr vs \<Rightarrow>
               (let parts = nonblank_strings vs
                in Inr (if length parts > 0 then [JStr (join tuple_sep parts)] else [])))
      | _ \<Rightarrow>
          if truthy item \<and> is_object item
          then (let cand = coalesce (text_field item) JNull
                in if \<not> nullish cand
                   then (case js_String expo cand of
                           Inl e \<Rightarrow> Inl e
                         | Inr s \<Rightarrow> Inr [JStr s])
                   else Inr [])
          else Inr [])"

text \<open>The array case: the loop over the elements, then the filter of \<open>out\<close>.\<close>

definition extract_array :: "(int \<Rightarrow> string) \<Rightarrow> jsval list \<Rightarrow> js_error + string list" where
  "extract_array expo raw =
     (case all_ok (map (claim_of_item expo) raw) of
        Inl e \<Rightarrow> Inl e
      | Inr outs \<Rightarrow> Inr (nonblank_strings (concat outs)))"

text \<open>
  \<^verbatim>\<open>extractClaims\<close>. \<^verbatim>\<open>JSON.parse\<close> is the platform's; it is the parameter \<open>parse\<close>,
  which returns the parsed value or throws. The function calls itself on the
  \<^verbatim>\<open>claims\<close> field of an object and on the parsed value of a string; \<open>None\<close> is a
  recursion that does not end. \<open>lines_fallback\<close> is the rest of the string case, reached
  when the text is not bracketed or does not parse. The outer
  \<^verbatim>\<open>catch { return []; }\<close> turns a throw in the array case into the empty list.
\<close>

definition bracketed :: "string \<Rightarrow> bool" where
  "bracketed trimmed =
     ((startsWith trimmed CHR ''['' \<and> endsWith trimmed CHR '']'')
      \<or> (startsWith trimmed CHR ''{'' \<and> endsWith trimmed CHR ''}''))"

definition lines_fallback :: "string \<Rightarrow> string list" where
  "lines_fallback trimmed =
     (if CHR 0x0A \<in> set trimmed
      then filter (\<lambda>l. l \<noteq> []) (map trim (split_lines trimmed))
      else [])"

partial_function (option) extractClaims ::
    "(int \<Rightarrow> string) \<Rightarrow> (string \<Rightarrow> js_error + jsval) \<Rightarrow> jsval \<Rightarrow> string list option" where
  "extractClaims expo parse raw =
     (if \<not> truthy raw then Some []
      else (case raw of
              JObj kvs \<Rightarrow>
                if isArray (obj_get kvs ''claims'')
                then extractClaims expo parse (obj_get kvs ''claims'')
                else Some []
            | JArr items \<Rightarrow>
                (case extract_array expo items of Inr out \<Rightarrow> Some out | Inl e \<Rightarrow> Some [])
            | JStr s \<Rightarrow>
                (let trimmed = trim s
                 in if bracketed trimmed
                    then (case parse trimmed of
                            Inr parsed \<Rightarrow> extractClaims expo parse parsed
                          | Inl e \<Rightarrow> Some (lines_fallback trimmed))
                    else Some (lines_fallback trimmed))
            | _ \<Rightarrow> Some []))"

subsection \<open>Claim statuses\<close>

datatype ClaimStatus = Entailed | Neutral | Contradiction

text \<open>\<^verbatim>\<open>mapRelToStatus\<close> has no \<^verbatim>\<open>try\<close>: a throw of \<^verbatim>\<open>String\<close> leaves it.\<close>

definition mapRelToStatus :: "(int \<Rightarrow> string) \<Rightarrow> jsval \<Rightarrow> js_error + ClaimStatus" where
  "mapRelToStatus expo rel =
     (case js_String expo (coalesce rel (JStr [])) of
        Inl e \<Rightarrow> Inl e
      | Inr t \<Rightarrow>
          (let s = toLowerCase t
           in Inr (if s = ''entailment'' then Entailed
                   else if s = ''contradiction'' then Contradiction
                   else Neutral)))"

text \<open>
  \<^verbatim>\<open>mapDirectStatuses\<close>: for each \<open>i\<close> below \<open>targetLen\<close>, in order, the status of
  \<^verbatim>\<open>Array.isArray(arr[i]) ? arr[i][0] : arr[i]\<close>; the first throw ends the loop.
\<close>

definition direct_rel :: "jsval list \<Rightarrow> nat \<Rightarrow> jsval" where
  "direct_rel arr i =
     (let raw = arr_at arr (int i)
      in case raw of JArr cells \<Rightarrow> arr_at cells 0 | _ \<Rightarrow> raw)"

definition mapDirectStatuses ::
    "(int \<Rightarrow> string) \<Rightarrow> jsval \<Rightarrow> nat \<Rightarrow> js_error + ClaimStatus list" where
  "mapDirectStatuses expo relations targetLen =
     (let arr = (case relations of JArr xs \<Rightarrow> xs | _ \<Rightarrow> [])
      in all_ok (map (\<lambda>i. mapRelToStatus expo (direct_rel arr i)) [0..<targetLen]))"

text \<open>
  \<^verbatim>\<open>gtClaimStatuses\<close> and \<^verbatim>\<open>respClaimStatuses\<close>: \<^verbatim>\<open>mapDirectStatuses\<close> on the relation list
  of the question and the number of claims, every claim \<open>neutral\<close> when it throws.
\<close>

definition claimStatuses :: "(int \<Rightarrow> string) \<Rightarrow> jsval \<Rightarrow> nat \<Rightarrow> ClaimStatus list" where
  "claimStatuses expo relations claimCount =
     (case mapDirectStatuses expo relations claimCount of
        Inr statuses \<Rightarrow> statuses
      | Inl e \<Rightarrow> replicate claimCount Neutral)"

subsection \<open>Chunk statuses\<close>

datatype ChunkStatus = Relevant | Irrelevant | Harming

definition chunkStatusForSets :: "chunk_sets \<Rightarrow> ChunkStatus" where
  "chunkStatusForSets sets =
     (let ent = length (entailments (gt sets));
          con = length (contradictions (gt sets))
      in if con > 0 then Harming
         else if ent > 0 then Relevant
         else Irrelevant)"

datatype UsageStatus = Grounded | Unused | Contradicting

definition usageStatusForSets :: "chunk_sets \<Rightarrow> UsageStatus" where
  "usageStatusForSets sets =
     (let ent = length (entailments (response sets));
          con = length (contradictions (response sets))
      in if con > 0 then Contradicting
         else if ent > 0 then Grounded
         else Unused)"

subsection \<open>The claim sets of a chunk\<close>

text \<open>
  The fields of the question that the chunk classification reads, and the two claim
  lists \<^verbatim>\<open>gtClaimsList\<close> and \<^verbatim>\<open>responseClaimsList\<close> extracted from it.
\<close>

record question =
  retrieved_context :: jsval
  retrieved2answer :: jsval
  retrieved2response :: jsval
  gtClaimsList :: "string list"
  responseClaimsList :: "string list"

definition pushByRel :: "claim_sets \<Rightarrow> jsval \<Rightarrow> string \<Rightarrow> claim_sets" where
  "pushByRel target rel claim =
     (if claim = [] \<or> \<not> truthy rel then target
      else if rel = JStr ''Entailment'' then target\<lparr>entailments := entailments target @ [claim]\<rparr>
      else if rel = JStr ''Contradiction''
      then target\<lparr>contradictions := contradictions target @ [claim]\<rparr>
      else if rel = JStr ''Neutral'' then target\<lparr>neutrals := neutrals target @ [claim]\<rparr>
      else target)"

definition empty_sets :: claim_sets where
  "empty_sets = \<lparr>entailments = [], contradictions = [], neutrals = []\<rparr>"

definition array_or_empty :: "jsval \<Rightarrow> jsval" where
  "array_or_empty v = (if isArray v then v else JArr [])"

definition array_length_or_0 :: "jsval \<Rightarrow> nat" where
  "array_length_or_0 v = (case v of JArr xs \<Rightarrow> length xs | _ \<Rightarrow> 0)"

text \<open>
  One of the two loops of \<^verbatim>\<open>getClaimSetsForChunk\<close>: over the claims \<open>claims\<close>, against
  the matrix \<open>m\<close>.
\<close>

definition push_claims :: "jsval \<Rightarrow> nat \<Rightarrow> nat \<Rightarrow> string list \<Rightarrow> claim_sets" where
  "push_claims m chunkIndex chunkCount claims =
     foldl (\<lambda>target i.
              pushByRel target
                (relAt m (int chunkIndex) (int i) (Some (int chunkCount))
                   (Some (int (length claims))))
                (claims ! i))
       empty_sets [0..<length claims]"

definition getClaimSetsForChunk :: "question \<Rightarrow> nat \<Rightarrow> chunk_sets" where
  "getClaimSetsForChunk q chunkIndex =
     (let r2a = array_or_empty (retrieved2answer q);
          r2r = array_or_empty (retrieved2response q);
          chunkCount = array_length_or_0 (retrieved_context q)
      in \<lparr>gt = push_claims r2a chunkIndex chunkCount (gtClaimsList q),
          response = push_claims r2r chunkIndex chunkCount (responseClaimsList q)\<rparr>)"

subsection \<open>The chunk summary row and the filter flags\<close>

record chunk_counts =
  rel_count :: nat
  irr_count :: nat
  harm_count :: nat
  grounded_count :: nat
  unused_count :: nat
  respContr_count :: nat

definition bump :: "bool \<Rightarrow> nat \<Rightarrow> nat" where
  "bump c k = (if c then k + 1 else k)"

definition count_chunk :: "chunk_counts \<Rightarrow> chunk_sets \<Rightarrow> chunk_counts" where
  "count_chunk acc sets =
     (let isIrrelevant = isIrrelevantFromSets sets
      in \<lparr>rel_count = bump (length (entailments (gt sets)) > 0) (rel_count acc),
          irr_count = bump isIrrelevant (irr_count acc),
          harm_count = bump (length (contradictions (gt sets)) > 0) (harm_count acc),
          grounded_count = bump (length (entailments (response sets)) > 0) (grounded_count acc),
          unused_count = bump (length (entailments (response sets)) = 0) (unused_count acc),
          respContr_count =
            bump (length (contradictions (response sets)) > 0) (respContr_count acc)\<rparr>)"

definition zero_counts :: chunk_counts where
  "zero_counts = \<lparr>rel_count = 0, irr_count = 0, harm_count = 0, grounded_count = 0,
                  unused_count = 0, respContr_count = 0\<rparr>"

definition summary_of :: "chunk_sets list \<Rightarrow> chunk_counts" where
  "summary_of setss = foldl count_chunk zero_counts setss"

definition chunk_summary :: "question \<Rightarrow> chunk_counts" where
  "chunk_summary q =
     summary_of (map (getClaimSetsForChunk q) [0..<array_length_or_0 (retrieved_context q)])"

record chunk_flags =
  f_relevant :: bool
  f_irrelevant :: bool
  f_harming :: bool
  f_grounded :: bool
  f_unused :: bool
  f_contradicting :: bool

definition flags_of :: "chunk_sets \<Rightarrow> chunk_flags" where
  "flags_of sets =
     (let status = chunkStatusForSets sets
      in \<lparr>f_relevant = (status = Relevant),
          f_irrelevant = (status = Irrelevant),
          f_harming = (status = Harming),
          f_grounded = (length (entailments (response sets)) > 0),
          f_unused = (length (entailments (response sets)) = 0),
          f_contradicting = (length (contradictions (response sets)) > 0)\<rparr>)"

text \<open>\<open>chunkFilters\<close> has the same six fields; a chunk is hidden when a filter that is off matches a flag.\<close>

definition hidden :: "chunk_flags \<Rightarrow> chunk_flags \<Rightarrow> bool" where
  "hidden chunkFilters flags =
     ((\<not> f_relevant chunkFilters \<and> f_relevant flags) \<or>
      (\<not> f_irrelevant chunkFilters \<and> f_irrelevant flags) \<or>
      (\<not> f_harming chunkFilters \<and> f_harming flags) \<or>
      (\<not> f_grounded chunkFilters \<and> f_grounded flags) \<or>
      (\<not> f_unused chunkFilters \<and> f_unused flags) \<or>
      (\<not> f_contradicting chunkFilters \<and> f_contradicting flags))"

subsection \<open>Support of a response claim by a chunk\<close>

text \<open>
  The loop over the chunks that sets \<^verbatim>\<open>supportedByChunk\<close> for response claim \<open>i\<close>. It
  stops at the first chunk whose relation reads \<open>entailment\<close>; it runs while the list is
  rendered, outside any \<^verbatim>\<open>try\<close>, so a throw of \<^verbatim>\<open>String\<close> leaves it.
\<close>

fun first_match :: "(nat \<Rightarrow> js_error + bool) \<Rightarrow> nat list \<Rightarrow> js_error + bool" where
  "first_match f [] = Inr False"
| "first_match f (j # js) =
     (case f j of
        Inl e \<Rightarrow> Inl e
      | Inr b \<Rightarrow> if b then Inr True else first_match f js)"

definition supportedByChunk :: "(int \<Rightarrow> string) \<Rightarrow> question \<Rightarrow> nat \<Rightarrow> js_error + bool" where
  "supportedByChunk expo q i =
     (let r2r = array_or_empty (retrieved2response q);
          chunkCount = array_length_or_0 (retrieved_context q);
          claimCount = length (responseClaimsList q)
      in first_match (\<lambda>j.
           case js_String expo (js_or
                  (relAt r2r (int j) (int i) (Some (int chunkCount)) (Some (int claimCount)))
                  (JStr [])) of
             Inl e \<Rightarrow> Inl e
           | Inr t \<Rightarrow> Inr (toLowerCase t = ''entailment''))
         [0..<chunkCount])"

section \<open>Connectors and hover (components/ClaimChunkOverlay.tsx)\<close>

text \<open>
  A connector path, with the fields the hover selection reads: its relation (the field
  \<^verbatim>\<open>rel\<close>) and its two end nodes, each a column and an index. The drawing fields (path data, stroke, tooltip)
  play no part in the selection and are left out.
\<close>

datatype column = ColGt | ColChunk | ColResp

datatype path_kind = GtChunk | ChunkResp

record node =
  col :: column
  index :: int

record conn_path =
  kind :: path_kind
  path_rel :: jsval
  src :: "node option"
  dst :: "node option"

text \<open>
  The two kinds of path that \<^verbatim>\<open>compute\<close> pushes: from a ground-truth claim to a chunk,
  and from a chunk to a response claim.
\<close>

definition gt_to_chunk :: "jsval \<Rightarrow> int \<Rightarrow> int \<Rightarrow> conn_path" where
  "gt_to_chunk r gi cjMatrix =
     \<lparr>kind = GtChunk, path_rel = r, src = Some \<lparr>col = ColGt, index = gi\<rparr>,
      dst = Some \<lparr>col = ColChunk, index = cjMatrix\<rparr>\<rparr>"

definition chunk_to_resp :: "jsval \<Rightarrow> int \<Rightarrow> int \<Rightarrow> conn_path" where
  "chunk_to_resp r cjMatrix ri =
     \<lparr>kind = ChunkResp, path_rel = r, src = Some \<lparr>col = ColChunk, index = cjMatrix\<rparr>,
      dst = Some \<lparr>col = ColResp, index = ri\<rparr>\<rparr>"

text \<open>
  A rendered element of one of the three columns is read through its
  \<^verbatim>\<open>data-gt-claim-index\<close>, \<^verbatim>\<open>data-chunk-index\<close> or \<^verbatim>\<open>data-resp-claim-index\<close> attribute: the
  number written there, \<open>None\<close> when the attribute is absent. The lists \<open>gtNodes\<close>,
  \<open>chunkNodes\<close> and \<open>respNodes\<close> hold the elements now rendered, in document order; a
  claim or chunk hidden by a filter is not among them. The index of an element is its
  attribute, and its position in the list when there is none. An attribute that is
  present holds the decimal form of an integer, as the application writes it.
\<close>

type_synonym dom_node = "int option"

definition node_index :: "dom_node list \<Rightarrow> nat \<Rightarrow> int" where
  "node_index nodes visIdx = (case nodes ! visIdx of Some k \<Rightarrow> k | None \<Rightarrow> int visIdx)"

definition totalChunkCount :: "question \<Rightarrow> dom_node list \<Rightarrow> nat" where
  "totalChunkCount q chunkNodes =
     (case retrieved_context q of JArr xs \<Rightarrow> length xs | _ \<Rightarrow> length chunkNodes)"

text \<open>
  The two loops of \<^verbatim>\<open>compute\<close> that fill \<^verbatim>\<open>pathsOut\<close>: for every rendered claim and
  every rendered chunk, a path when the resolved relation is truthy and not \<open>Neutral\<close>.
\<close>

definition gt_paths :: "question \<Rightarrow> dom_node list \<Rightarrow> dom_node list \<Rightarrow> conn_path list" where
  "gt_paths q gtNodes chunkNodes =
     concat (map (\<lambda>visIdx.
       (let gi = node_index gtNodes visIdx
        in concat (map (\<lambda>idx.
             (let cjMatrix = node_index chunkNodes idx;
                  r = relAt (array_or_empty (retrieved2answer q)) cjMatrix gi
                        (Some (int (totalChunkCount q chunkNodes)))
                        (Some (int (length gtNodes)))
              in if \<not> truthy r \<or> r = JStr ''Neutral'' then []
                 else [gt_to_chunk r gi cjMatrix]))
           [0..<length chunkNodes])))
       [0..<length gtNodes])"

definition resp_paths :: "question \<Rightarrow> dom_node list \<Rightarrow> dom_node list \<Rightarrow> conn_path list" where
  "resp_paths q respNodes chunkNodes =
     concat (map (\<lambda>visIdx.
       (let ri = node_index respNodes visIdx
        in concat (map (\<lambda>idx.
             (let cjMatrix = node_index chunkNodes idx;
                  r = relAt (array_or_empty (retrieved2response q)) cjMatrix ri
                        (Some (int (totalChunkCount q chunkNodes))) None
              in if \<not> truthy r \<or> r = JStr ''Neutral'' then []
                 else [chunk_to_resp r cjMatrix ri]))
           [0..<length chunkNodes])))
       [0..<length respNodes])"

definition build_paths ::
    "question \<Rightarrow> dom_node list \<Rightarrow> dom_node list \<Rightarrow> dom_node list \<Rightarrow> conn_path list" where
  "build_paths q gtNodes chunkNodes respNodes =
     gt_paths q gtNodes chunkNodes @ resp_paths q respNodes chunkNodes"

text \<open>
  \<^verbatim>\<open>pathsOut.map((p, idx) => cond(p) ? idx : -1).filter(i => i >= 0)\<close>: the positions of
  the paths that satisfy \<open>cond\<close>, in order.
\<close>

definition positions :: "(conn_path \<Rightarrow> bool) \<Rightarrow> conn_path list \<Rightarrow> nat list" where
  "positions cond pathsOut = filter (\<lambda>idx. cond (pathsOut ! idx)) [0..<length pathsOut]"

text \<open>\<^verbatim>\<open>p.src?.col === c && p.src.index === i\<close>, and the same for \<^verbatim>\<open>dst\<close>.\<close>

definition src_is :: "column \<Rightarrow> int \<Rightarrow> conn_path \<Rightarrow> bool" where
  "src_is c i p = (case src p of Some n \<Rightarrow> col n = c \<and> index n = i | None \<Rightarrow> False)"

definition dst_is :: "column \<Rightarrow> int \<Rightarrow> conn_path \<Rightarrow> bool" where
  "dst_is c i p = (case dst p of Some n \<Rightarrow> col n = c \<and> index n = i | None \<Rightarrow> False)"

text \<open>
  \<^verbatim>\<open>new Set(direct.map(i => e(pathsOut[i])?.col === 'chunk' ? e(pathsOut[i]).index : -1).filter(v => v >= 0))\<close>
\<close>

definition chunk_index_of :: "node option \<Rightarrow> int" where
  "chunk_index_of e = (case e of Some n \<Rightarrow> if col n = ColChunk then index n else - 1 | None \<Rightarrow> - 1)"

definition chunk_indices :: "(conn_path \<Rightarrow> node option) \<Rightarrow> conn_path list \<Rightarrow> nat list \<Rightarrow> int list" where
  "chunk_indices endp pathsOut direct =
     filter (\<lambda>v. v \<ge> 0) (map (\<lambda>i. chunk_index_of (endp (pathsOut ! i))) direct)"

text \<open>\<^verbatim>\<open>p.src?.col === 'chunk' && chunkIdxs.has(p.src.index)\<close>, and the same for \<^verbatim>\<open>dst\<close>.\<close>

definition end_in_chunks :: "(conn_path \<Rightarrow> node option) \<Rightarrow> int list \<Rightarrow> conn_path \<Rightarrow> bool" where
  "end_in_chunks endp chunkIdxs p =
     (case endp p of Some n \<Rightarrow> col n = ColChunk \<and> index n \<in> set chunkIdxs | None \<Rightarrow> False)"

text \<open>\<^verbatim>\<open>Array.from(new Set(xs))\<close>: the elements of \<open>xs\<close> in the order of their first occurrence.\<close>

definition array_from_set :: "nat list \<Rightarrow> nat list" where
  "array_from_set xs = foldl (\<lambda>acc x. if x \<in> set acc then acc else acc @ [x]) [] xs"

text \<open>
  The selections attached by \<^verbatim>\<open>attachHover\<close>. For the claims,
  \<^verbatim>\<open>gtNodes.forEach((el, gi) => ...)\<close> and \<^verbatim>\<open>respNodes.forEach((el, ri) => ...)\<close> hand the
  selection the position of the element in the list of rendered elements, and the
  selection compares the index stored in a path with that position. For the chunks the
  selection is handed \<^verbatim>\<open>ci.matrixIdx\<close>, the index of the element.
\<close>

definition hover_gt :: "conn_path list \<Rightarrow> nat \<Rightarrow> nat list" where
  "hover_gt pathsOut gi =
     (let direct = positions (src_is ColGt (int gi)) pathsOut;
          chunkIdxs = chunk_indices dst pathsOut direct;
          chain = positions (end_in_chunks src chunkIdxs) pathsOut
      in array_from_set (direct @ chain))"

definition hover_chunk :: "conn_path list \<Rightarrow> int \<Rightarrow> nat list" where
  "hover_chunk pathsOut matrixIdx =
     positions (\<lambda>p. src_is ColChunk matrixIdx p \<or> dst_is ColChunk matrixIdx p) pathsOut"

definition hover_resp :: "conn_path list \<Rightarrow> nat \<Rightarrow> nat list" where
  "hover_resp pathsOut ri =
     (let direct = positions (dst_is ColResp (int ri)) pathsOut;
          chunkIdxs = chunk_indices src pathsOut direct;
          chain = positions (end_in_chunks dst chunkIdxs) pathsOut
      in array_from_set (direct @ chain))"

section \<open>Vocabulary of the statements\<close>

text \<open>
  The relation that \<^verbatim>\<open>getClaimSetsForChunk\<close> and the support scan resolve for chunk
  \<open>chunkIndex\<close> and claim \<open>i\<close> (the variable \<^verbatim>\<open>rel\<close> of their loops), and the positions
  of the claims with a non-empty text whose resolved relation is exactly \<open>label\<close>.
\<close>

definition resolved :: "jsval \<Rightarrow> jsval \<Rightarrow> nat \<Rightarrow> string list \<Rightarrow> nat \<Rightarrow> jsval" where
  "resolved m ctx chunkIndex claims i =
     relAt (array_or_empty m) (int chunkIndex) (int i)
       (Some (int (array_length_or_0 ctx))) (Some (int (length claims)))"

definition claims_with :: "jsval \<Rightarrow> jsval \<Rightarrow> nat \<Rightarrow> string list \<Rightarrow> string \<Rightarrow> nat list" where
  "claims_with m ctx chunkIndex claims label =
     filter (\<lambda>i. claims ! i \<noteq> [] \<and> resolved m ctx chunkIndex claims i = JStr label)
       [0..<length claims]"

text \<open>The response claims that chunk \<open>k\<close> relates to with the label \<open>label\<close>.\<close>

definition resp_with :: "question \<Rightarrow> nat \<Rightarrow> string \<Rightarrow> nat list" where
  "resp_with q k label =
     claims_with (retrieved2response q) (retrieved_context q) k (responseClaimsList q) label"

text \<open>
  The claims that the specification counts as neutral: those whose resolved relation is
  \<open>Neutral\<close> or is unresolved.
\<close>

definition neutral_or_unresolved :: "jsval \<Rightarrow> jsval \<Rightarrow> nat \<Rightarrow> string list \<Rightarrow> nat list" where
  "neutral_or_unresolved m ctx chunkIndex claims =
     filter (\<lambda>i. resolved m ctx chunkIndex claims i = JStr ''Neutral''
               \<or> resolved m ctx chunkIndex claims i = JUndefined)
       [0..<length claims]"

text \<open>
  The disposition as the specification words it: \<open>entailed\<close> if any cell of the claim's
  relation list is \<open>Entailment\<close>, else \<open>contradiction\<close> if any cell is
  \<open>Contradiction\<close>, else \<open>neutral\<close>.
\<close>

definition any_cell_disposition :: "jsval list \<Rightarrow> ClaimStatus" where
  "any_cell_disposition cells =
     (if list_ex (\<lambda>c. c = JStr ''Entailment'') cells then Entailed
      else if list_ex (\<lambda>c. c = JStr ''Contradiction'') cells then Contradiction
      else Neutral)"

text \<open>
  The casings of a word: \<open>s\<close> is a casing of \<open>w\<close> when it has the length of \<open>w\<close> and each
  of its characters is the character of \<open>w\<close> at that place or the capital of it.
\<close>

definition same_letter :: "char \<Rightarrow> char \<Rightarrow> bool" where
  "same_letter c d =
     (c = d \<or> (c, d) \<in> set (zip ''ABCDEFGHIJKLMNOPQRSTUVWXYZ'' ''abcdefghijklmnopqrstuvwxyz''))"

definition casing_of :: "string \<Rightarrow> string \<Rightarrow> bool" where
  "casing_of s w = list_all2 same_letter s w"

text \<open>The status that goes with a string form.\<close>

definition status_of_text :: "string \<Rightarrow> ClaimStatus" where
  "status_of_text t =
     (if casing_of t ''entailment'' then Entailed
      else if casing_of t ''contradiction'' then Contradiction
      else Neutral)"

text \<open>
  The two-hop neighbourhood as the specification words it: the edges that touch the
  hovered node, and the edges that touch a node at the other end of one of those.
\<close>

definition touches :: "node \<Rightarrow> conn_path \<Rightarrow> bool" where
  "touches n p = (src p = Some n \<or> dst p = Some n)"

definition other_ends :: "node \<Rightarrow> conn_path \<Rightarrow> node list" where
  "other_ends n p =
     filter (\<lambda>m. m \<noteq> n) ((case src p of Some a \<Rightarrow> [a] | None \<Rightarrow> []) @
                          (case dst p of Some b \<Rightarrow> [b] | None \<Rightarrow> []))"

definition two_hop_spec :: "conn_path list \<Rightarrow> node \<Rightarrow> nat set" where
  "two_hop_spec pathsOut n =
     (let direct = positions (touches n) pathsOut;
          reached = concat (map (\<lambda>i. other_ends n (pathsOut ! i)) direct)
      in set direct \<union> set (concat (map (\<lambda>m. positions (touches m) pathsOut) reached)))"

section \<open>Properties of the resolver\<close>

lemma index_row_JArr: "index_row (JArr rows) a b = Inr (cell rows a b)"
  by (simp add: index_row_def bind_e_def cell_def isArray_def split: jsval.splits)

lemma index_direct_JArr: "index_direct (JArr rows) a b = Inr (cell_direct rows a b)"
  by (simp add: index_direct_def js_index_opt_def nullish_def bind_e_def cell_direct_def
      isArray_def split: jsval.splits)

lemma seq_Inr: "seq (Inr a) (Inr b) = Inr (pick a b)"
  by (simp add: seq_def pick_def split: option.splits)

lemma first_row_step:
  "bind_e (js_index (JArr rows) 0) (\<lambda>first.
               if isArray first
               then bind_e (js_length first) (\<lambda>flen.
                 seq (if count_is kc flen
                      then index_row (JArr rows) i j else Inr None)
                     (if count_is cc flen
                      then index_row (JArr rows) j i else Inr None))
               else Inr None)
   = Inr (pick (guarded (first_len rows \<noteq> None \<and> kc = first_len rows) (cell rows i j))
               (guarded (first_len rows \<noteq> None \<and> cc = first_len rows) (cell rows j i)))"
proof (cases "arr_at rows 0")
  case (JArr r)
  then show ?thesis
    by (cases kc; cases cc)
       (auto simp add: bind_e_def isArray_def first_len_def count_is_def index_row_JArr seq_Inr
        guarded_def pick_def)
qed (simp_all add: bind_e_def isArray_def first_len_def guarded_def pick_def)

lemma relAt_body_JArr: "relAt_body (JArr rows) i j cc kc = Inr (chain rows i j cc kc)"
proof -
  have s1: "(if count_is c (JNum n) then index_row (JArr rows) a b else Inr None)
            = Inr (guarded (c = Some n) (cell rows a b))" for c n a b
    by (cases c) (auto simp: count_is_def guarded_def index_row_JArr)
  show ?thesis
    unfolding relAt_body_def first_row_step chain_def
    by (simp add: isArray_def bind_e_def s1 index_direct_JArr seq_Inr)
qed

lemma chain_Some: "\<exists>v. chain rows i j cc kc = Some v"
  by (simp add: chain_def pick_def split: option.splits)

lemma relAt_JArr: "relAt (JArr rows) i j cc kc = the (chain rows i j cc kc)"
  using chain_Some [of rows i j cc kc]
  by (auto simp add: relAt_def relAt_body_JArr)

lemma relAt_not_array: "\<not> isArray m \<Longrightarrow> relAt m i j cc kc = JUndefined"
  by (simp add: relAt_def relAt_body_def)

lemma relAt_body_returns: "\<exists>v. relAt_body m i j cc kc = Inr (Some v)"
proof (cases "isArray m")
  case True
  then obtain rows where "m = JArr rows" by (cases m) (simp_all add: isArray_def)
  then show ?thesis using chain_Some [of rows i j cc kc] by (simp add: relAt_body_JArr)
qed (simp add: relAt_body_def)

text \<open>Cells of a matrix given by its rows.\<close>

lemma arr_at_rows:
  "arr_at (map JArr rs) a = (if 0 \<le> a \<and> a < int (length rs) then JArr (rs ! nat a) else JUndefined)"
  by (auto simp add: arr_at_def)

lemma cell_rows:
  "cell (map JArr rs) a b = (if 0 \<le> a \<and> a < int (length rs) then Some (arr_at (rs ! nat a) b) else None)"
  by (simp add: cell_def arr_at_rows)

lemma cell_direct_rows:
  "cell_direct (map JArr rs) a b =
     (if 0 \<le> a \<and> a < int (length rs) \<and> b < int (length (rs ! nat a)) then Some (arr_at (rs ! nat a) b) else None)"
  by (simp add: cell_direct_def arr_at_rows)

lemma first_len_rows:
  "first_len (map JArr rs) = (if rs = [] then None else Some (int (length (rs ! 0))))"
  by (cases rs) (simp_all add: first_len_def arr_at_def)

lemma shaped_row: "shaped m a b \<Longrightarrow> i < a \<Longrightarrow> length (m ! i) = b"
  by (simp add: shaped_def list_all_length)

lemma shaped_length: "shaped m a b \<Longrightarrow> length m = a"
  by (simp add: shaped_def)

lemma shaped_transposeM: "shaped m a b \<Longrightarrow> shaped (transposeM b m) b a"
  by (simp add: shaped_def transposeM_def list_all_length)

lemma transposeM_nth: "i < length m \<Longrightarrow> j < b \<Longrightarrow> transposeM b m ! j ! i = m ! i ! j"
  by (simp add: transposeM_def)

text \<open>A matrix of the right shape, read at valid coordinates.\<close>

lemma relAt_shaped:
  assumes "shaped m a b" "i < a" "j < b"
  shows "relAt (matrix_of m) (int i) (int j) (Some (int a)) kc = m ! i ! j"
  using assms shaped_row [OF assms(1,2)]
  by (simp add: matrix_of_def relAt_JArr chain_def cell_rows guarded_def pick_def shaped_length arr_at_def)

lemma relAt_shaped_as_claims:
  assumes "shaped t b a" "i < a" "j < b" "a \<noteq> b"
  shows "relAt (matrix_of t) (int i) (int j) (Some (int a)) (Some (int b)) = t ! j ! i"
  using assms shaped_row [OF assms(1,3)]
  by (simp add: matrix_of_def relAt_JArr chain_def cell_rows guarded_def pick_def shaped_length arr_at_def)

text \<open>
  Claim C1 (as amended). Let \<open>m\<close> be a matrix of shape \<open>chunkCount \<times> claimCount\<close> and
  \<open>(i, j)\<close> a valid (chunk, claim) coordinate. With both counts passed, \<open>relAt\<close> reads
  \<open>m[i][j]\<close> from \<open>m\<close>. From the transpose of \<open>m\<close> it reads the same value \<open>m[i][j]\<close>
  when \<open>chunkCount \<noteq> claimCount\<close>; when the two counts are equal the outer length
  matches \<open>chunkCount\<close> first, the rows are taken for chunks, and it reads \<open>m[j][i]\<close>.
\<close>

theorem relAt_transposed:
  assumes "shaped m chunkCount claimCount" and "i < chunkCount" and "j < claimCount"
  shows "relAt (matrix_of m) (int i) (int j) (Some (int chunkCount)) (Some (int claimCount))
           = m ! i ! j
       \<and> relAt (matrix_of (transposeM claimCount m)) (int i) (int j)
             (Some (int chunkCount)) (Some (int claimCount))
           = (if chunkCount = claimCount then m ! j ! i else m ! i ! j)"
proof (intro conjI)
  show "relAt (matrix_of m) (int i) (int j) (Some (int chunkCount)) (Some (int claimCount)) = m ! i ! j"
    using assms by (rule relAt_shaped)
  let ?t = "transposeM claimCount m"
  have t: "shaped ?t claimCount chunkCount" using assms(1) by (rule shaped_transposeM)
  have len: "length m = chunkCount" using assms(1) by (rule shaped_length)
  show "relAt (matrix_of ?t) (int i) (int j) (Some (int chunkCount)) (Some (int claimCount))
           = (if chunkCount = claimCount then m ! j ! i else m ! i ! j)"
  proof (cases "chunkCount = claimCount")
    case True
    have "relAt (matrix_of ?t) (int i) (int j) (Some (int claimCount)) (Some (int claimCount)) = ?t ! i ! j"
      using t assms(2,3) True by (intro relAt_shaped) simp_all
    also have "\<dots> = m ! j ! i" using assms(2,3) True len by (simp add: transposeM_nth)
    finally show ?thesis using True by simp
  next
    case False
    have "relAt (matrix_of ?t) (int i) (int j) (Some (int chunkCount)) (Some (int claimCount)) = ?t ! j ! i"
      using t assms(2,3) False by (rule relAt_shaped_as_claims)
    also have "\<dots> = m ! i ! j" using assms(2,3) len by (simp add: transposeM_nth)
    finally show ?thesis using False by simp
  qed
qed

text \<open>The theorem at a \<open>2 \<times> 3\<close> matrix and its transpose, coordinate \<open>(1, 2)\<close>.\<close>

theorem relAt_transposed_witness:
  "relAt (matrix_of [[JStr ''Entailment'', JStr ''Neutral'', JStr ''Neutral''],
                     [JStr ''Neutral'', JStr ''Neutral'', JStr ''Contradiction'']])
      1 2 (Some 2) (Some 3) = JStr ''Contradiction''
   \<and> relAt (matrix_of [[JStr ''Entailment'', JStr ''Neutral''],
                       [JStr ''Neutral'', JStr ''Neutral''],
                       [JStr ''Neutral'', JStr ''Contradiction'']])
      1 2 (Some 2) (Some 3) = JStr ''Contradiction''"
  using relAt_transposed [of "[[JStr ''Entailment'', JStr ''Neutral'', JStr ''Neutral''],
                     [JStr ''Neutral'', JStr ''Neutral'', JStr ''Contradiction'']]" 2 3 1 2]
  by (simp add: shaped_def transposeM_def upt_rec)

text \<open>
  The claim as stated fails on a square matrix: at \<open>(0, 1)\<close> the matrix holds
  \<open>Neutral\<close>, and its transpose, passed with the same counts, resolves to \<open>Contradiction\<close>.
\<close>

theorem relAt_transposed_square_counterexample:
  "shaped [[JStr ''Entailment'', JStr ''Neutral''], [JStr ''Contradiction'', JStr ''Neutral'']] 2 2
   \<and> transposeM 2 [[JStr ''Entailment'', JStr ''Neutral''], [JStr ''Contradiction'', JStr ''Neutral'']]
       = [[JStr ''Entailment'', JStr ''Contradiction''], [JStr ''Neutral'', JStr ''Neutral'']]
   \<and> relAt (matrix_of [[JStr ''Entailment'', JStr ''Neutral''], [JStr ''Contradiction'', JStr ''Neutral'']])
       0 1 (Some 2) (Some 2) = JStr ''Neutral''
   \<and> relAt (matrix_of [[JStr ''Entailment'', JStr ''Contradiction''], [JStr ''Neutral'', JStr ''Neutral'']])
       0 1 (Some 2) (Some 2) = JStr ''Contradiction''"
  by code_simp

lemma cell_shaped:
  assumes "shaped m a b"
  shows "cell (map JArr m) x y =
           (if 0 \<le> x \<and> x < int a
            then Some (if 0 \<le> y \<and> y < int b then m ! nat x ! nat y else JUndefined)
            else None)"
proof (cases "0 \<le> x \<and> x < int a")
  case True
  then have "nat x < a" by linarith
  then have "length (m ! nat x) = b" using assms by (rule shaped_row [rotated])
  then show ?thesis using True assms by (simp add: cell_rows arr_at_def shaped_length)
next
  case False
  then show ?thesis using assms by (auto simp add: cell_rows shaped_length)
qed

lemma cell_direct_shaped:
  assumes "shaped m a b"
  shows "cell_direct (map JArr m) x y =
           (if 0 \<le> x \<and> x < int a \<and> y < int b
            then Some (if 0 \<le> y then m ! nat x ! nat y else JUndefined)
            else None)"
proof (cases "0 \<le> x \<and> x < int a")
  case True
  then have "nat x < a" by linarith
  then have "length (m ! nat x) = b" using assms by (rule shaped_row [rotated])
  then show ?thesis using True assms by (simp add: cell_direct_rows arr_at_def shaped_length)
next
  case False
  then show ?thesis using assms by (auto simp add: cell_direct_rows shaped_length)
qed

lemma first_len_shaped:
  assumes "shaped m a b"
  shows "first_len (map JArr m) = (if a = 0 then None else Some (int b))"
proof (cases "a = 0")
  case True
  then have "m = []" using assms by (simp add: shaped_def)
  then show ?thesis using True by (simp add: first_len_def arr_at_def)
next
  case False
  then have "0 < a" by simp
  then have "length (m ! 0) = b" using assms by (rule shaped_row [rotated])
  moreover have "m \<noteq> []" using assms False by (auto simp: shaped_def)
  ultimately show ?thesis using False by (simp add: first_len_rows)
qed

lemma blank_guarded: "blank x \<Longrightarrow> blank (guarded c x)"
  by (simp add: blank_def guarded_def)

lemma blank_pick: "blank x \<Longrightarrow> blank y \<Longrightarrow> blank (pick x y)"
  by (auto simp add: blank_def pick_def)

lemma pick_blank: "blank x \<Longrightarrow> pick x (Some JUndefined) = Some JUndefined"
  by (auto simp add: blank_def pick_def)

lemma chain_blank:
  assumes "blank (cell rows i j)" and "blank (cell rows j i)"
    and "blank (cell_direct rows i j)" and "blank (cell_direct rows j i)"
  shows "chain rows i j cc kc = Some JUndefined"
proof -
  have "pick (cell_direct rows j i) (Some JUndefined) = Some JUndefined"
    using assms(4) by (rule pick_blank)
  moreover have "pick (cell_direct rows i j) (Some JUndefined) = Some JUndefined"
    using assms(3) by (rule pick_blank)
  moreover have "pick (pick (guarded (first_len rows \<noteq> None \<and> kc = first_len rows) (cell rows i j))
                (guarded (first_len rows \<noteq> None \<and> cc = first_len rows) (cell rows j i)))
                (Some JUndefined) = Some JUndefined"
    using assms(1,2) by (intro pick_blank blank_pick blank_guarded)
  moreover have "pick (guarded (kc = Some (int (length rows))) (cell rows j i)) (Some JUndefined)
                 = Some JUndefined"
    using assms(2) by (intro pick_blank blank_guarded)
  moreover have "pick (guarded (cc = Some (int (length rows))) (cell rows i j)) (Some JUndefined)
                 = Some JUndefined"
    using assms(1) by (intro pick_blank blank_guarded)
  ultimately show ?thesis by (simp add: chain_def)
qed

lemma blank_cell_shaped:
  assumes "shaped m a b" and "\<not> (0 \<le> x \<and> x < int a \<and> 0 \<le> y \<and> y < int b)"
  shows "blank (cell (map JArr m) x y)" and "blank (cell_direct (map JArr m) x y)"
  using assms(2)
  by (auto simp add: blank_def cell_shaped [OF assms(1)] cell_direct_shaped [OF assms(1)])

lemma relAt_shaped_no_cell:
  assumes "shaped m a b"
    and "\<not> (0 \<le> i \<and> i < int a \<and> 0 \<le> j \<and> j < int b)"
    and "\<not> (0 \<le> j \<and> j < int a \<and> 0 \<le> i \<and> i < int b)"
  shows "relAt (matrix_of m) i j cc kc = JUndefined"
proof -
  have "chain (map JArr m) i j cc kc = Some JUndefined"
    using blank_cell_shaped [OF assms(1,2)] blank_cell_shaped [OF assms(1,3)]
    by (intro chain_blank)
  then show ?thesis by (simp add: matrix_of_def relAt_JArr)
qed

lemma chain_row_found:
  assumes "cell rows i j = Some v"
  shows "chain rows i j (Some (int (length rows))) kc = Some v"
  using assms by (simp add: chain_def guarded_def pick_def)

lemma relAt_shaped_out_of_range:
  assumes "shaped m a b"
    and "\<not> (0 \<le> i \<and> i < int a \<and> 0 \<le> j \<and> j < int b)"
    and "\<not> (int a \<le> i \<and> i < int b \<and> 0 \<le> j \<and> j < int a)"
  shows "relAt (matrix_of m) i j (Some (int a)) (Some (int b)) = JUndefined"
proof (cases "0 \<le> i \<and> i < int a")
  case True
  then have "cell (map JArr m) i j = Some JUndefined"
    using assms(2) by (auto simp add: cell_shaped [OF assms(1)])
  then have "chain (map JArr m) i j (Some (int (length (map JArr m)))) (Some (int b)) = Some JUndefined"
    by (rule chain_row_found)
  then show ?thesis by (simp add: matrix_of_def relAt_JArr shaped_length [OF assms(1)])
next
  case False
  then have "\<not> (0 \<le> j \<and> j < int a \<and> 0 \<le> i \<and> i < int b)"
    using assms(3) by linarith
  with assms(1,2) show ?thesis by (rule relAt_shaped_no_cell)
qed

lemma relAt_shaped_positional:
  assumes "shaped m a b" and "int a \<le> i" and "i < int b" and "0 \<le> j" and "j < int a"
  shows "relAt (matrix_of m) i j (Some (int a)) (Some (int b)) = m ! nat j ! nat i"
proof -
  have ab: "a \<noteq> b" using assms(2,3) by linarith
  have 1: "cell (map JArr m) i j = None" "cell_direct (map JArr m) i j = None"
    using assms(2) by (simp_all add: cell_shaped [OF assms(1)] cell_direct_shaped [OF assms(1)])
  have 2: "cell_direct (map JArr m) j i = Some (m ! nat j ! nat i)"
    using assms(2-) by (simp add: cell_direct_shaped [OF assms(1)])
  have 3: "first_len (map JArr m) = Some (int b)"
    using assms(4,5) by (simp add: first_len_shaped [OF assms(1)])
  have "chain (map JArr m) i j (Some (int a)) (Some (int b)) = Some (m ! nat j ! nat i)"
    using ab by (simp add: chain_def 1 2 3 guarded_def pick_def shaped_length [OF assms(1)])
  then show ?thesis by (simp add: matrix_of_def relAt_JArr)
qed

lemma relAt_empty: "relAt (JArr []) i j cc kc = JUndefined"
proof -
  have e: "arr_at [] k = JUndefined" for k by (auto simp add: arr_at_def)
  have "chain [] i j cc kc = Some JUndefined"
    by (intro chain_blank) (simp_all add: blank_def cell_def cell_direct_def e)
  then show ?thesis by (simp add: relAt_JArr)
qed

text \<open>
  Claim C2 (as amended). \<open>relAt\<close> never throws: on every input its body returns a
  value, so the \<^verbatim>\<open>catch\<close> is never taken. It returns \<^verbatim>\<open>undefined\<close> for a matrix that is
  not an array (\<^verbatim>\<open>null\<close> included) and for the empty array. For a well-formed
  \<open>a \<times> b\<close> matrix it returns \<^verbatim>\<open>undefined\<close> whenever neither \<open>(i, j)\<close> nor \<open>(j, i)\<close>
  addresses a cell, whatever counts are passed; and, with the counts \<open>a\<close> and \<open>b\<close>
  passed, for every out-of-range coordinate \<open>(i, j)\<close> except those with
  \<open>a \<le> i < b\<close> and \<open>0 \<le> j < a\<close>: there the positional fallback reads the matrix by
  claim index first and returns the cell \<open>m[j][i]\<close>.
\<close>

theorem relAt_total_safety:
  "(\<exists>v. relAt_body matrix i j cc kc = Inr (Some v))
   \<and> (\<not> isArray matrix \<longrightarrow> relAt matrix i j cc kc = JUndefined)
   \<and> relAt (JArr []) i j cc kc = JUndefined
   \<and> (shaped m a b
        \<and> \<not> (0 \<le> i \<and> i < int a \<and> 0 \<le> j \<and> j < int b)
        \<and> \<not> (0 \<le> j \<and> j < int a \<and> 0 \<le> i \<and> i < int b)
      \<longrightarrow> relAt (matrix_of m) i j cc kc = JUndefined)
   \<and> (shaped m a b
        \<and> \<not> (0 \<le> i \<and> i < int a \<and> 0 \<le> j \<and> j < int b)
        \<and> \<not> (int a \<le> i \<and> i < int b \<and> 0 \<le> j \<and> j < int a)
      \<longrightarrow> relAt (matrix_of m) i j (Some (int a)) (Some (int b)) = JUndefined)
   \<and> (shaped m a b \<and> int a \<le> i \<and> i < int b \<and> 0 \<le> j \<and> j < int a
      \<longrightarrow> relAt (matrix_of m) i j (Some (int a)) (Some (int b)) = m ! nat j ! nat i)"
proof (intro conjI impI)
  show "\<exists>v. relAt_body matrix i j cc kc = Inr (Some v)"
    by (rule relAt_body_returns)
  show "relAt matrix i j cc kc = JUndefined" if "\<not> isArray matrix"
    using that by (rule relAt_not_array)
  show "relAt (JArr []) i j cc kc = JUndefined"
    by (rule relAt_empty)
  show "relAt (matrix_of m) i j cc kc = JUndefined"
    if "shaped m a b
        \<and> \<not> (0 \<le> i \<and> i < int a \<and> 0 \<le> j \<and> j < int b)
        \<and> \<not> (0 \<le> j \<and> j < int a \<and> 0 \<le> i \<and> i < int b)"
    using that by (elim conjE) (rule relAt_shaped_no_cell; assumption)
  show "relAt (matrix_of m) i j (Some (int a)) (Some (int b)) = JUndefined"
    if "shaped m a b
        \<and> \<not> (0 \<le> i \<and> i < int a \<and> 0 \<le> j \<and> j < int b)
        \<and> \<not> (int a \<le> i \<and> i < int b \<and> 0 \<le> j \<and> j < int a)"
    using that by (elim conjE) (rule relAt_shaped_out_of_range; assumption)
  show "relAt (matrix_of m) i j (Some (int a)) (Some (int b)) = m ! nat j ! nat i"
    if "shaped m a b \<and> int a \<le> i \<and> i < int b \<and> 0 \<le> j \<and> j < int a"
    using that by (elim conjE) (rule relAt_shaped_positional; assumption)
qed

text \<open>
  The theorem at \<^verbatim>\<open>null\<close> and at a \<open>2 \<times> 3\<close> matrix: both indices out of range, the
  claim index out of range, and the chunk index \<open>2\<close> with claim index \<open>0\<close>.
\<close>

theorem relAt_total_safety_witness:
  "relAt_body JNull 0 0 None None = Inr (Some JUndefined)
   \<and> relAt JNull 0 0 None None = JUndefined
   \<and> relAt (matrix_of [[JStr ''Entailment'', JStr ''Neutral'', JStr ''Contradiction''],
                       [JStr ''Neutral'', JStr ''Neutral'', JStr ''Neutral'']])
        5 7 None None = JUndefined
   \<and> relAt (matrix_of [[JStr ''Entailment'', JStr ''Neutral'', JStr ''Contradiction''],
                       [JStr ''Neutral'', JStr ''Neutral'', JStr ''Neutral'']])
        1 3 (Some 2) (Some 3) = JUndefined
   \<and> relAt (matrix_of [[JStr ''Entailment'', JStr ''Neutral'', JStr ''Contradiction''],
                       [JStr ''Neutral'', JStr ''Neutral'', JStr ''Neutral'']])
        2 0 (Some 2) (Some 3) = JStr ''Contradiction''"
proof -
  let ?m = "[[JStr ''Entailment'', JStr ''Neutral'', JStr ''Contradiction''],
             [JStr ''Neutral'', JStr ''Neutral'', JStr ''Neutral'']]"
  have sh: "shaped ?m 2 3" by (simp add: shaped_def)
  have na: "\<not> isArray JNull" by (simp add: isArray_def)
  have b: "relAt_body JNull 0 0 None None = Inr (Some JUndefined)"
    by (simp add: relAt_body_def isArray_def)
  note t1 = relAt_total_safety [of JNull 0 0 None None ?m 2 3]
  note t2 = relAt_total_safety [of "matrix_of ?m" 5 7 None None ?m 2 3]
  note t3 = relAt_total_safety [of "matrix_of ?m" 1 3 "Some 2" "Some 3" ?m 2 3]
  note t4 = relAt_total_safety [of "matrix_of ?m" 2 0 "Some 2" "Some 3" ?m 2 3]
  show ?thesis using sh na b t1 t2 t3 t4 by simp
qed

text \<open>
  The claim as stated fails: against a well-formed \<open>2 \<times> 3\<close> matrix with its counts
  passed, the chunk index \<open>2\<close> is out of range and \<open>relAt\<close> returns the relation
  stored at \<open>m[0][2]\<close>.
\<close>

theorem relAt_out_of_range_counterexample:
  "shaped [[JStr ''Entailment'', JStr ''Neutral'', JStr ''Contradiction''],
           [JStr ''Neutral'', JStr ''Neutral'', JStr ''Neutral'']] 2 3
   \<and> \<not> (2 :: int) < 2
   \<and> relAt (matrix_of [[JStr ''Entailment'', JStr ''Neutral'', JStr ''Contradiction''],
                       [JStr ''Neutral'', JStr ''Neutral'', JStr ''Neutral'']])
        2 0 (Some 2) (Some 3) = JStr ''Contradiction''
   \<and> JStr ''Contradiction'' \<noteq> JUndefined"
  by code_simp

section \<open>Properties of the claim sets and statuses\<close>

lemma pushByRel_fields:
  "entailments (pushByRel t rel c) =
     entailments t @ (if c \<noteq> [] \<and> rel = JStr ''Entailment'' then [c] else [])"
  "contradictions (pushByRel t rel c) =
     contradictions t @ (if c \<noteq> [] \<and> rel = JStr ''Contradiction'' then [c] else [])"
  "neutrals (pushByRel t rel c) =
     neutrals t @ (if c \<noteq> [] \<and> rel = JStr ''Neutral'' then [c] else [])"
  by (auto simp add: pushByRel_def truthy_def)

lemma foldl_pushByRel:
  "entailments (foldl (\<lambda>t i. pushByRel t (r i) (c i)) acc is) =
     entailments acc @ map c (filter (\<lambda>i. c i \<noteq> [] \<and> r i = JStr ''Entailment'') is)"
  "contradictions (foldl (\<lambda>t i. pushByRel t (r i) (c i)) acc is) =
     contradictions acc @ map c (filter (\<lambda>i. c i \<noteq> [] \<and> r i = JStr ''Contradiction'') is)"
  "neutrals (foldl (\<lambda>t i. pushByRel t (r i) (c i)) acc is) =
     neutrals acc @ map c (filter (\<lambda>i. c i \<noteq> [] \<and> r i = JStr ''Neutral'') is)"
  by (induction "is" arbitrary: acc; simp add: pushByRel_fields)+

lemma push_claims_fields:
  "entailments (push_claims (array_or_empty m) k (array_length_or_0 ctx) claims) =
     map (\<lambda>i. claims ! i) (claims_with m ctx k claims ''Entailment'')"
  "contradictions (push_claims (array_or_empty m) k (array_length_or_0 ctx) claims) =
     map (\<lambda>i. claims ! i) (claims_with m ctx k claims ''Contradiction'')"
  "neutrals (push_claims (array_or_empty m) k (array_length_or_0 ctx) claims) =
     map (\<lambda>i. claims ! i) (claims_with m ctx k claims ''Neutral'')"
  unfolding push_claims_def claims_with_def resolved_def
  by (simp_all add: foldl_pushByRel empty_sets_def)

lemma gt_sets:
  "gt (getClaimSetsForChunk q k) =
     push_claims (array_or_empty (retrieved2answer q)) k
       (array_length_or_0 (retrieved_context q)) (gtClaimsList q)"
  "response (getClaimSetsForChunk q k) =
     push_claims (array_or_empty (retrieved2response q)) k
       (array_length_or_0 (retrieved_context q)) (responseClaimsList q)"
  by (simp_all add: getClaimSetsForChunk_def Let_def)

lemma length_filter_three:
  assumes "\<And>x. \<not> (P x \<and> Q x)" and "\<And>x. \<not> (P x \<and> R x)" and "\<And>x. \<not> (Q x \<and> R x)"
  shows "length (filter P xs) + length (filter Q xs) + length (filter R xs)
           = length (filter (\<lambda>x. P x \<or> Q x \<or> R x) xs)"
  using assms by (induction xs) auto

lemma labelled_total:
  "length (claims_with m ctx k claims ''Entailment'')
     + length (claims_with m ctx k claims ''Contradiction'')
     + length (claims_with m ctx k claims ''Neutral'')
   = length (filter (\<lambda>i. claims ! i \<noteq> []
        \<and> resolved m ctx k claims i
            \<in> {JStr ''Entailment'', JStr ''Contradiction'', JStr ''Neutral''})
       [0..<length claims])"
proof -
  have same: "((claims ! i \<noteq> [] \<and> resolved m ctx k claims i = JStr ''Entailment'')
            \<or> (claims ! i \<noteq> [] \<and> resolved m ctx k claims i = JStr ''Contradiction'')
            \<or> (claims ! i \<noteq> [] \<and> resolved m ctx k claims i = JStr ''Neutral''))
        = (claims ! i \<noteq> []
            \<and> resolved m ctx k claims i
                \<in> {JStr ''Entailment'', JStr ''Contradiction'', JStr ''Neutral''})" for i
    by auto
  show ?thesis
    unfolding claims_with_def
    by (subst length_filter_three) (simp_all add: same)
qed

text \<open>
  Claim C3 (as amended). For every chunk, the neutral count produced by
  \<^verbatim>\<open>getClaimSetsForChunk\<close>, for the ground-truth claims and for the response claims, is
  the number of claims with a non-empty text whose resolved relation is exactly the
  string \<open>Neutral\<close>. A claim whose relation is unresolved is pushed to none of the three
  sets (\<^verbatim>\<open>pushByRel\<close> returns at once on a falsy relation): the three sets together
  hold the claims whose resolved relation is one of the three labels.
\<close>

theorem neutral_count_exact:
  "length (neutrals (gt (getClaimSetsForChunk q k)))
     = length (claims_with (retrieved2answer q) (retrieved_context q) k (gtClaimsList q) ''Neutral'')
   \<and> length (neutrals (response (getClaimSetsForChunk q k)))
     = length (claims_with (retrieved2response q) (retrieved_context q) k
                 (responseClaimsList q) ''Neutral'')
   \<and> length (entailments (gt (getClaimSetsForChunk q k)))
       + length (contradictions (gt (getClaimSetsForChunk q k)))
       + length (neutrals (gt (getClaimSetsForChunk q k)))
     = length (filter (\<lambda>i. gtClaimsList q ! i \<noteq> []
          \<and> resolved (retrieved2answer q) (retrieved_context q) k (gtClaimsList q) i
              \<in> {JStr ''Entailment'', JStr ''Contradiction'', JStr ''Neutral''})
         [0..<length (gtClaimsList q)])"
  using labelled_total [of "retrieved2answer q" "retrieved_context q" k "gtClaimsList q"]
  by (simp add: gt_sets push_claims_fields)

text \<open>
  The claim as stated fails: one chunk, one ground-truth claim, no relation matrix. The
  relation of the claim is unresolved, and the neutral set of the chunk is empty.
\<close>

theorem neutral_count_counterexample:
  "neutral_or_unresolved JUndefined (JArr [JObj [(''text'', JStr ''c'')]]) 0 [''a''] = [0]
   \<and> neutrals (gt (getClaimSetsForChunk
        \<lparr>retrieved_context = JArr [JObj [(''text'', JStr ''c'')]],
         retrieved2answer = JUndefined, retrieved2response = JUndefined,
         gtClaimsList = [''a''], responseClaimsList = []\<rparr> 0)) = []"
  by code_simp

text \<open>
  Claim C6. \<^verbatim>\<open>chunkStatusForSets\<close> is \<open>harming\<close> whenever there is a ground-truth
  contradiction, else \<open>relevant\<close> whenever there is a ground-truth entailment, else
  \<open>irrelevant\<close>; a chunk with both an entailment and a contradiction is \<open>harming\<close>,
  not \<open>relevant\<close>. For the sets of a chunk of a question the two counts are those of the
  claims whose resolved relation is \<open>Contradiction\<close> and \<open>Entailment\<close>.
\<close>

theorem chunkStatus_precedence:
  "chunkStatusForSets sets =
     (if contradictions (gt sets) \<noteq> [] then Harming
      else if entailments (gt sets) \<noteq> [] then Relevant
      else Irrelevant)
   \<and> (entailments (gt sets) \<noteq> [] \<and> contradictions (gt sets) \<noteq> []
        \<longrightarrow> chunkStatusForSets sets = Harming \<and> chunkStatusForSets sets \<noteq> Relevant)
   \<and> (chunkStatusForSets (getClaimSetsForChunk q k) = Harming) =
        (claims_with (retrieved2answer q) (retrieved_context q) k (gtClaimsList q)
           ''Contradiction'' \<noteq> [])
   \<and> (chunkStatusForSets (getClaimSetsForChunk q k) = Relevant) =
        (claims_with (retrieved2answer q) (retrieved_context q) k (gtClaimsList q)
           ''Contradiction'' = []
         \<and> claims_with (retrieved2answer q) (retrieved_context q) k (gtClaimsList q)
           ''Entailment'' \<noteq> [])"
  by (simp add: chunkStatusForSets_def Let_def gt_sets push_claims_fields)

text \<open>The theorem at a chunk that entails one ground-truth claim and contradicts another.\<close>

theorem chunkStatus_precedence_witness:
  "chunkStatusForSets
     (getClaimSetsForChunk
        \<lparr>retrieved_context = JArr [JStr ''c0''],
         retrieved2answer = JArr [JArr [JStr ''Entailment'', JStr ''Contradiction'']],
         retrieved2response = JArr [],
         gtClaimsList = [''g0'', ''g1''], responseClaimsList = []\<rparr> 0) = Harming
   \<and> chunkStatusForSets
       \<lparr>gt = \<lparr>entailments = [''g0''], contradictions = [''g1''], neutrals = []\<rparr>,
        response = \<lparr>entailments = [], contradictions = [], neutrals = []\<rparr>\<rparr> = Harming"
proof -
  let ?q = "\<lparr>retrieved_context = JArr [JStr ''c0''],
         retrieved2answer = JArr [JArr [JStr ''Entailment'', JStr ''Contradiction'']],
         retrieved2response = JArr [],
         gtClaimsList = [''g0'', ''g1''], responseClaimsList = []\<rparr>"
  let ?s = "\<lparr>gt = \<lparr>entailments = [''g0''], contradictions = [''g1''], neutrals = []\<rparr>,
        response = \<lparr>entailments = [], contradictions = [], neutrals = []\<rparr>\<rparr>"
  have c: "claims_with (retrieved2answer ?q) (retrieved_context ?q) 0 (gtClaimsList ?q)
           ''Contradiction'' = [1]"
    by code_simp
  show ?thesis
    using chunkStatus_precedence [of ?s ?q 0] c by simp
qed

lemma lookup_or_self:
  assumes "distinct (map fst tbl)" and "d \<notin> fst ` set tbl"
  shows "((case map_of tbl c of Some e \<Rightarrow> e | None \<Rightarrow> c) = d) = (c = d \<or> (c, d) \<in> set tbl)"
proof (cases "map_of tbl c")
  case None
  then have "c \<notin> fst ` set tbl" by (simp add: map_of_eq_None_iff)
  then have "(c, d) \<notin> set tbl" by force
  then show ?thesis using None by simp
next
  case (Some e)
  then have in_tbl: "(c, e) \<in> set tbl" by (rule map_of_SomeD)
  then have "c \<in> fst ` set tbl" by force
  then have cd: "c \<noteq> d" using assms(2) by auto
  have "(c, d) \<in> set tbl \<longleftrightarrow> e = d"
    using in_tbl assms(1) by (auto dest: eq_key_imp_eq_value)
  then show ?thesis using Some cd by simp
qed

lemma lower_char_same_letter:
  assumes "d \<notin> set ''ABCDEFGHIJKLMNOPQRSTUVWXYZ''"
  shows "(lower_char c = d) = same_letter c d"
proof -
  have keys: "map fst (zip ''ABCDEFGHIJKLMNOPQRSTUVWXYZ'' ''abcdefghijklmnopqrstuvwxyz'')
              = ''ABCDEFGHIJKLMNOPQRSTUVWXYZ''"
    by simp
  have dist: "distinct (map fst (zip ''ABCDEFGHIJKLMNOPQRSTUVWXYZ'' ''abcdefghijklmnopqrstuvwxyz''))"
    unfolding keys by simp
  have out: "d \<notin> fst ` set (zip ''ABCDEFGHIJKLMNOPQRSTUVWXYZ'' ''abcdefghijklmnopqrstuvwxyz'')"
    using assms keys by (metis set_map)
  show ?thesis
    unfolding lower_char_def same_letter_def by (rule lookup_or_self [OF dist out])
qed

lemma toLowerCase_casing:
  assumes "set w \<inter> set ''ABCDEFGHIJKLMNOPQRSTUVWXYZ'' = {}"
  shows "(toLowerCase s = w) = casing_of s w"
  using assms
proof (induction s arbitrary: w)
  case Nil
  then show ?case by (auto simp add: toLowerCase_def casing_of_def)
next
  case (Cons c s)
  show ?case
  proof (cases w)
    case Nil
    then show ?thesis by (simp add: toLowerCase_def casing_of_def)
  next
    case (Cons d w')
    have d: "d \<notin> set ''ABCDEFGHIJKLMNOPQRSTUVWXYZ''" using Cons.prems Cons by auto
    have w': "set w' \<inter> set ''ABCDEFGHIJKLMNOPQRSTUVWXYZ'' = {}" using Cons.prems Cons by auto
    have "(toLowerCase s = w') = casing_of s w'" using w' by (rule Cons.IH)
    then show ?thesis
      using lower_char_same_letter [OF d, of c] Cons
      by (simp add: toLowerCase_def casing_of_def)
  qed
qed

lemma lowered_words:
  "(toLowerCase s = ''entailment'') = casing_of s ''entailment''"
  "(toLowerCase s = ''contradiction'') = casing_of s ''contradiction''"
  by (rule toLowerCase_casing, simp)+

lemma casing_length: "casing_of s w \<Longrightarrow> length s = length w"
  by (simp add: casing_of_def list_all2_lengthD)

lemma mapRelToStatus_text:
  assumes "js_String expo (coalesce rel (JStr [])) = Inr t"
  shows "mapRelToStatus expo rel = Inr (status_of_text t)"
  using assms by (simp add: mapRelToStatus_def status_of_text_def lowered_words)

lemma status_of_short: "length t < 10 \<Longrightarrow> status_of_text t = Neutral"
  by (auto simp add: status_of_text_def dest: casing_length)

lemma mapRelToStatus_nullish:
  "mapRelToStatus expo JNull = Inr Neutral" "mapRelToStatus expo JUndefined = Inr Neutral"
  by (simp_all add: mapRelToStatus_def coalesce_def nullish_def toLowerCase_def)

lemma mapRelToStatus_printed:
  assumes "js_String expo rel = Inr t"
  shows "mapRelToStatus expo rel = Inr (status_of_text t)"
proof (cases "nullish rel")
  case True
  then have "rel = JUndefined \<or> rel = JNull" by (simp add: nullish_def)
  then have "length t < 10" using assms by auto
  then have "status_of_text t = Neutral" by (rule status_of_short)
  then show ?thesis using True by (auto simp add: nullish_def mapRelToStatus_nullish)
next
  case False
  then show ?thesis using assms by (intro mapRelToStatus_text) (simp add: coalesce_def)
qed

lemma mapRelToStatus_throws:
  assumes "js_String expo rel = Inl e"
  shows "mapRelToStatus expo rel = Inl e"
proof -
  have "\<not> nullish rel" using assms by (auto simp add: nullish_def)
  then show ?thesis using assms by (simp add: mapRelToStatus_def coalesce_def)
qed

lemma mapRelToStatus_JStr: "mapRelToStatus expo (JStr s) = Inr (status_of_text s)"
  by (rule mapRelToStatus_printed) simp

lemma first_match_all_Inr:
  assumes "\<forall>j \<in> set js. \<exists>b. f j = Inr b"
  shows "first_match f js = Inr (\<exists>j \<in> set js. f j = Inr True)"
  using assms by (induction js) auto

lemma show_number_0: "show_number expo 0 = ''0''"
  by (simp add: show_number_def show_int_def show_nat.simps digit_char_def)

lemma js_or_text:
  assumes "js_String expo rel = Inr t"
  shows "\<exists>u. js_String expo (js_or rel (JStr [])) = Inr u
            \<and> casing_of u ''entailment'' = casing_of t ''entailment''"
proof (cases "truthy rel")
  case True
  then show ?thesis using assms by (simp add: js_or_def)
next
  case False
  then have "rel = JUndefined \<or> rel = JNull \<or> rel = JBool False \<or> rel = JNum 0 \<or> rel = JStr []"
    by (cases rel) (simp_all add: truthy_def)
  then have "length t < 10" using assms by (auto simp add: show_number_0)
  then have "\<not> casing_of t ''entailment''" by (auto dest: casing_length)
  moreover have "\<not> casing_of [] ''entailment''" by (auto dest: casing_length)
  ultimately show ?thesis using False by (simp add: js_or_def)
qed

lemma js_or_throws:
  assumes "js_String expo rel = Inl e"
  shows "js_String expo (js_or rel (JStr [])) = Inl e"
proof -
  have "truthy rel" using assms by (cases rel) (auto simp add: truthy_def)
  then show ?thesis using assms by (simp add: js_or_def)
qed

lemma all_ok_map_Inr: "all_ok (map Inr vs) = Inr vs"
  by (induction vs) simp_all

lemma all_ok_InrD: "all_ok xs = Inr vs \<Longrightarrow> xs = map Inr vs"
  by (induction xs arbitrary: vs) (auto split: sum.splits)

lemma all_ok_Inr_iff: "(all_ok xs = Inr vs) = (xs = map Inr vs)"
  using all_ok_InrD all_ok_map_Inr by metis

lemma all_ok_returns:
  assumes "\<forall>x \<in> set xs. \<exists>v. x = Inr v"
  shows "\<exists>vs. all_ok xs = Inr vs"
  using assms by (induction xs) (auto split: sum.splits)

lemma direct_rel_cases:
  "direct_rel arr i =
     (if i < length arr
      then (case arr ! i of JArr [] \<Rightarrow> JUndefined | JArr (c # cs) \<Rightarrow> c | raw \<Rightarrow> raw)
      else JUndefined)"
  by (auto simp add: direct_rel_def arr_at_def Let_def split: jsval.splits list.splits)

lemma mapDirectStatuses_Inr:
  "(mapDirectStatuses expo (JArr arr) n = Inr statuses)
     = (map (\<lambda>i. mapRelToStatus expo (direct_rel arr i)) [0..<n] = map Inr statuses)"
  by (simp add: mapDirectStatuses_def all_ok_Inr_iff)

lemma mapDirectStatuses_length:
  assumes "mapDirectStatuses expo relations n = Inr statuses"
  shows "length statuses = n"
proof -
  obtain arr where "all_ok (map (\<lambda>i. mapRelToStatus expo (direct_rel arr i)) [0..<n]) = Inr statuses"
    using assms by (auto simp add: mapDirectStatuses_def Let_def)
  then have "map (\<lambda>i. mapRelToStatus expo (direct_rel arr i)) [0..<n] = map Inr statuses"
    by (rule all_ok_InrD)
  then have "length (map (\<lambda>i. mapRelToStatus expo (direct_rel arr i)) [0..<n])
             = length (map Inr statuses :: (js_error + ClaimStatus) list)"
    by simp
  then show ?thesis by simp
qed

lemma mapDirectStatuses_nth:
  assumes "mapDirectStatuses expo (JArr arr) n = Inr statuses" and "i < n"
  shows "Inr (statuses ! i) = mapRelToStatus expo (direct_rel arr i)"
proof -
  have eq: "map (\<lambda>i. mapRelToStatus expo (direct_rel arr i)) [0..<n] = map Inr statuses"
    using assms(1) by (simp add: mapDirectStatuses_Inr)
  have len: "length statuses = n" using assms(1) by (rule mapDirectStatuses_length)
  have "map (\<lambda>i. mapRelToStatus expo (direct_rel arr i)) [0..<n] ! i = map Inr statuses ! i"
    using eq by simp
  then show ?thesis using assms(2) len by simp
qed

lemma mapDirectStatuses_not_array:
  assumes "\<not> isArray relations"
  shows "mapDirectStatuses expo relations n = Inr (replicate n Neutral)"
proof -
  have e: "(case relations of JArr xs \<Rightarrow> xs | _ \<Rightarrow> []) = []"
    using assms by (cases relations) (simp_all add: isArray_def)
  have "map (\<lambda>i. mapRelToStatus expo (direct_rel [] i)) [0..<n] = map Inr (replicate n Neutral)"
    by (simp add: direct_rel_cases mapRelToStatus_nullish map_replicate_const)
  then show ?thesis by (simp add: mapDirectStatuses_def e all_ok_Inr_iff)
qed

text \<open>
  Claim C4 (as amended). \<^verbatim>\<open>mapDirectStatuses\<close> gives one status per claim. The status of
  claim \<open>i\<close> is read from entry \<open>i\<close> of the relation list: from its first cell only when
  the entry is itself a list (\<open>neutral\<close> when that list is empty), from the entry itself
  otherwise, by \<^verbatim>\<open>mapRelToStatus\<close>. A missing entry, and a relation list that is not an
  array, give \<open>neutral\<close>. The function returns whenever \<^verbatim>\<open>mapRelToStatus\<close> returns on each
  of these values; \<^verbatim>\<open>gtClaimStatuses\<close> and \<^verbatim>\<open>respClaimStatuses\<close> hand its result on, and
  make every claim \<open>neutral\<close> when it throws.
\<close>

theorem mapDirectStatuses_first_cell:
  "(mapDirectStatuses expo relations n = Inr statuses \<longrightarrow> length statuses = n)
   \<and> (mapDirectStatuses expo (JArr arr) n = Inr statuses \<longrightarrow>
        (\<forall>i<n. Inr (statuses ! i) =
           (if i < length arr
            then (case arr ! i of
                    JArr [] \<Rightarrow> Inr Neutral
                  | JArr (c # cs) \<Rightarrow> mapRelToStatus expo c
                  | raw \<Rightarrow> mapRelToStatus expo raw)
            else Inr Neutral)))
   \<and> ((\<forall>i<n. \<exists>st. mapRelToStatus expo (direct_rel arr i) = Inr st) \<longrightarrow>
        (\<exists>statuses. mapDirectStatuses expo (JArr arr) n = Inr statuses))
   \<and> (\<not> isArray relations \<longrightarrow>
        mapDirectStatuses expo relations n = Inr (replicate n Neutral))
   \<and> (mapDirectStatuses expo relations n = Inr statuses \<longrightarrow>
        claimStatuses expo relations n = statuses)
   \<and> (mapDirectStatuses expo relations n = Inl e \<longrightarrow>
        claimStatuses expo relations n = replicate n Neutral)"
proof (intro conjI impI allI)
  show "length statuses = n" if "mapDirectStatuses expo relations n = Inr statuses"
    using that by (rule mapDirectStatuses_length)
  show "Inr (statuses ! i) =
           (if i < length arr
            then (case arr ! i of
                    JArr [] \<Rightarrow> Inr Neutral
                  | JArr (c # cs) \<Rightarrow> mapRelToStatus expo c
                  | raw \<Rightarrow> mapRelToStatus expo raw)
            else Inr Neutral)"
    if "mapDirectStatuses expo (JArr arr) n = Inr statuses" and "i < n" for i
    using mapDirectStatuses_nth [OF that]
    by (simp add: direct_rel_cases mapRelToStatus_nullish split: jsval.splits list.splits)
  show "\<exists>statuses. mapDirectStatuses expo (JArr arr) n = Inr statuses"
    if "\<forall>i<n. \<exists>st. mapRelToStatus expo (direct_rel arr i) = Inr st"
    using that by (auto simp add: mapDirectStatuses_def intro!: all_ok_returns)
  show "mapDirectStatuses expo relations n = Inr (replicate n Neutral)" if "\<not> isArray relations"
    using that by (rule mapDirectStatuses_not_array)
  show "claimStatuses expo relations n = statuses"
    if "mapDirectStatuses expo relations n = Inr statuses"
    using that by (simp add: claimStatuses_def)
  show "claimStatuses expo relations n = replicate n Neutral"
    if "mapDirectStatuses expo relations n = Inl e"
    using that by (simp add: claimStatuses_def)
qed

text \<open>
  The theorem at a list with a two-cell entry, a plain entry, an empty entry and a missing
  one, at \<^verbatim>\<open>null\<close>, and at a list whose entry cannot be printed.
\<close>

theorem mapDirectStatuses_first_cell_witness:
  "claimStatuses show_int
     (JArr [JArr [JStr ''Entailment'', JStr ''Neutral''], JStr ''Contradiction'', JArr []]) 4
   = [Entailed, Contradiction, Neutral, Neutral]
   \<and> mapDirectStatuses show_int JNull 2 = Inr [Neutral, Neutral]
   \<and> claimStatuses show_int (JArr [JObj [(''toString'', JNum 1)]]) 2 = [Neutral, Neutral]"
proof -
  let ?arr = "[JArr [JStr ''Entailment'', JStr ''Neutral''], JStr ''Contradiction'', JArr []]"
  have v: "mapDirectStatuses show_int (JArr ?arr) 4 = Inr [Entailed, Contradiction, Neutral, Neutral]"
    by code_simp
  have t: "mapDirectStatuses show_int (JArr [JObj [(''toString'', JNum 1)]]) 2 = Inl TypeError"
    by code_simp
  have n: "\<not> isArray JNull" by (simp add: isArray_def)
  have r: "replicate 2 Neutral = [Neutral, Neutral]" by (simp add: numeral_2_eq_2)
  have a: "claimStatuses show_int (JArr ?arr) 4 = [Entailed, Contradiction, Neutral, Neutral]"
    using mapDirectStatuses_first_cell
      [of show_int "JArr ?arr" 4 "[Entailed, Contradiction, Neutral, Neutral]" ?arr TypeError] v
    by blast
  have b: "mapDirectStatuses show_int JNull 2 = Inr [Neutral, Neutral]"
    using mapDirectStatuses_first_cell [of show_int JNull 2 "[]" "[]" TypeError] n r by simp
  have c: "claimStatuses show_int (JArr [JObj [(''toString'', JNum 1)]]) 2 = [Neutral, Neutral]"
    using mapDirectStatuses_first_cell
      [of show_int "JArr [JObj [(''toString'', JNum 1)]]" 2 "[]" "[]" TypeError] t r
    by simp
  show ?thesis using a b c by simp
qed

text \<open>
  The claim as stated fails: a claim whose relation list is \<open>[Neutral, Entailment]\<close> has an
  \<open>Entailment\<close> cell, and its status is \<open>neutral\<close>.
\<close>

theorem mapDirectStatuses_any_cell_counterexample:
  "any_cell_disposition [JStr ''Neutral'', JStr ''Entailment''] = Entailed
   \<and> mapDirectStatuses show_int (JArr [JArr [JStr ''Neutral'', JStr ''Entailment'']]) 1
       = Inr [Neutral]
   \<and> claimStatuses show_int (JArr [JArr [JStr ''Neutral'', JStr ''Entailment'']]) 1 = [Neutral]"
  by code_simp

lemma clamp_count_simps:
  "clamp_count None = 0" "clamp_count (Some NaN) = 0" "clamp_count (Some (Num k)) = max 0 k"
  by (simp_all add: clamp_count_def)

lemma irrelevant_predicates:
  "isIrrelevantFromCounts e n c
       = (clamp_count e = 0 \<and> clamp_count c = 0 \<and> clamp_count n > 0)"
  "isIrrelevantFromSets sets
       = isIrrelevantFromCounts (Some (Num (int (length (entailments (gt sets))))))
           (Some (Num (int (length (neutrals (gt sets))))))
           (Some (Num (int (length (contradictions (gt sets))))))"
  "(chunkStatusForSets sets = Irrelevant)
       = (entailments (gt sets) = [] \<and> contradictions (gt sets) = [])"
  by (simp_all add: clamp_count_simps isIrrelevantFromCounts_def isIrrelevantFromSets_def
      chunkStatusForSets_def Let_def)

text \<open>
  Claim C5. The code at a question with one chunk, one ground-truth claim and no relation
  matrix. The claim sets of the chunk are empty. \<^verbatim>\<open>isIrrelevantFromSets\<close> is false on
  them, as \<^verbatim>\<open>isIrrelevantFromCounts\<close> is on the three lengths, and the summary row counts
  no irrelevant chunk; \<^verbatim>\<open>chunkStatusForSets\<close> is \<open>irrelevant\<close> on them, and so are the
  badge and the filter flag of that chunk. The deciders of \<open>irrelevant\<close> disagree here.
\<close>

theorem irrelevant_badge_diverges:
  "getClaimSetsForChunk
     \<lparr>retrieved_context = JArr [JObj [(''text'', JStr ''c'')]],
      retrieved2answer = JUndefined, retrieved2response = JUndefined,
      gtClaimsList = [''a''], responseClaimsList = []\<rparr> 0
   = \<lparr>gt = \<lparr>entailments = [], contradictions = [], neutrals = []\<rparr>,
      response = \<lparr>entailments = [], contradictions = [], neutrals = []\<rparr>\<rparr>
   \<and> \<not> isIrrelevantFromSets
       \<lparr>gt = \<lparr>entailments = [], contradictions = [], neutrals = []\<rparr>,
        response = \<lparr>entailments = [], contradictions = [], neutrals = []\<rparr>\<rparr>
   \<and> \<not> isIrrelevantFromCounts (Some (Num 0)) (Some (Num 0)) (Some (Num 0))
   \<and> chunkStatusForSets
       \<lparr>gt = \<lparr>entailments = [], contradictions = [], neutrals = []\<rparr>,
        response = \<lparr>entailments = [], contradictions = [], neutrals = []\<rparr>\<rparr> = Irrelevant
   \<and> f_irrelevant (flags_of
       \<lparr>gt = \<lparr>entailments = [], contradictions = [], neutrals = []\<rparr>,
        response = \<lparr>entailments = [], contradictions = [], neutrals = []\<rparr>\<rparr>)
   \<and> irr_count (chunk_summary
       \<lparr>retrieved_context = JArr [JObj [(''text'', JStr ''c'')]],
        retrieved2answer = JUndefined, retrieved2response = JUndefined,
        gtClaimsList = [''a''], responseClaimsList = []\<rparr>) = 0"
  by code_simp

lemma foldl_count_chunk:
  "unused_count (foldl count_chunk acc ss)
     = unused_count acc + length (filter (\<lambda>s. entailments (response s) = []) ss)"
  "grounded_count (foldl count_chunk acc ss)
     = grounded_count acc + length (filter (\<lambda>s. entailments (response s) \<noteq> []) ss)"
  "respContr_count (foldl count_chunk acc ss)
     = respContr_count acc + length (filter (\<lambda>s. contradictions (response s) \<noteq> []) ss)"
  by (induction ss arbitrary: acc; simp add: count_chunk_def bump_def Let_def)+

lemma summary_counts:
  "unused_count (summary_of ss) = length (filter (\<lambda>s. entailments (response s) = []) ss)"
  "grounded_count (summary_of ss) = length (filter (\<lambda>s. entailments (response s) \<noteq> []) ss)"
  "respContr_count (summary_of ss) = length (filter (\<lambda>s. contradictions (response s) \<noteq> []) ss)"
  by (simp_all add: summary_of_def foldl_count_chunk zero_counts_def)

lemma response_sets:
  "(entailments (response (getClaimSetsForChunk q k)) = []) = (resp_with q k ''Entailment'' = [])"
  "(contradictions (response (getClaimSetsForChunk q k)) = [])
     = (resp_with q k ''Contradiction'' = [])"
  by (simp_all add: gt_sets push_claims_fields resp_with_def)

lemma chunk_summary_counts:
  "unused_count (chunk_summary q)
     = length (filter (\<lambda>k. resp_with q k ''Entailment'' = [])
         [0..<array_length_or_0 (retrieved_context q)])"
  "grounded_count (chunk_summary q)
     = length (filter (\<lambda>k. resp_with q k ''Entailment'' \<noteq> [])
         [0..<array_length_or_0 (retrieved_context q)])"
  "respContr_count (chunk_summary q)
     = length (filter (\<lambda>k. resp_with q k ''Contradiction'' \<noteq> [])
         [0..<array_length_or_0 (retrieved_context q)])"
  by (simp_all add: chunk_summary_def summary_counts filter_map comp_def response_sets)

text \<open>
  Claim C9. In the filter flags and in the summary counts a chunk is \<open>unused\<close> exactly
  when it has no response entailment, whatever its response contradictions: a chunk with
  a response contradiction and no response entailment carries both the flag \<open>unused\<close> and
  the flag \<open>contradicting\<close>. For the chunks of a question, the summary count Unused is the
  number of chunks with no response claim resolved to \<open>Entailment\<close>, Used the number of
  those with one, Conflicting the number of chunks with a response claim resolved to
  \<open>Contradiction\<close>. Used and Unused together count every chunk once, so as soon as one
  chunk is conflicting the three counts add up to more than the number of chunks.
\<close>

theorem unused_ignores_contradictions:
  "f_unused (flags_of sets) = (entailments (response sets) = [])
   \<and> f_contradicting (flags_of sets) = (contradictions (response sets) \<noteq> [])
   \<and> (contradictions (response sets) \<noteq> [] \<and> entailments (response sets) = []
        \<longrightarrow> f_unused (flags_of sets) \<and> f_contradicting (flags_of sets))
   \<and> f_unused (flags_of (getClaimSetsForChunk q k)) = (resp_with q k ''Entailment'' = [])
   \<and> f_contradicting (flags_of (getClaimSetsForChunk q k))
       = (resp_with q k ''Contradiction'' \<noteq> [])
   \<and> unused_count (summary_of ss) = length (filter (\<lambda>s. entailments (response s) = []) ss)
   \<and> respContr_count (summary_of ss)
       = length (filter (\<lambda>s. contradictions (response s) \<noteq> []) ss)
   \<and> grounded_count (summary_of ss) + unused_count (summary_of ss) = length ss
   \<and> ((\<exists>s \<in> set ss. contradictions (response s) \<noteq> [])
        \<longrightarrow> grounded_count (summary_of ss) + unused_count (summary_of ss)
              + respContr_count (summary_of ss) > length ss)
   \<and> unused_count (chunk_summary q)
       = length (filter (\<lambda>k. resp_with q k ''Entailment'' = [])
           [0..<array_length_or_0 (retrieved_context q)])
   \<and> grounded_count (chunk_summary q)
       = length (filter (\<lambda>k. resp_with q k ''Entailment'' \<noteq> [])
           [0..<array_length_or_0 (retrieved_context q)])
   \<and> respContr_count (chunk_summary q)
       = length (filter (\<lambda>k. resp_with q k ''Contradiction'' \<noteq> [])
           [0..<array_length_or_0 (retrieved_context q)])
   \<and> grounded_count (chunk_summary q) + unused_count (chunk_summary q)
       = array_length_or_0 (retrieved_context q)
   \<and> ((\<exists>k < array_length_or_0 (retrieved_context q). resp_with q k ''Contradiction'' \<noteq> [])
        \<longrightarrow> grounded_count (chunk_summary q) + unused_count (chunk_summary q)
              + respContr_count (chunk_summary q) > array_length_or_0 (retrieved_context q))"
proof -
  have part: "length (filter (\<lambda>s. P s) xs) + length (filter (\<lambda>s. \<not> P s) xs) = length xs"
    for P :: "'a \<Rightarrow> bool" and xs
    using sum_length_filter_compl [of P xs] by simp
  have pos: "length (filter P xs) > 0" if "\<exists>x \<in> set xs. P x" for P :: "'a \<Rightarrow> bool" and xs
    using that by (simp add: length_pos_if_in_set filter_empty_conv)
  let ?n = "array_length_or_0 (retrieved_context q)"
  have p1: "grounded_count (summary_of ss) + unused_count (summary_of ss) = length ss"
    using part [of "\<lambda>s. entailments (response s) \<noteq> []" ss] by (simp add: summary_counts)
  have p2: "grounded_count (summary_of ss) + unused_count (summary_of ss)
              + respContr_count (summary_of ss) > length ss"
    if "\<exists>s \<in> set ss. contradictions (response s) \<noteq> []"
    using p1 pos [of ss "\<lambda>s. contradictions (response s) \<noteq> []"] that
    by (simp add: summary_counts)
  have q1: "grounded_count (chunk_summary q) + unused_count (chunk_summary q) = ?n"
    using part [of "\<lambda>k. resp_with q k ''Entailment'' \<noteq> []" "[0..<?n]"]
    by (simp add: chunk_summary_counts)
  have q2: "grounded_count (chunk_summary q) + unused_count (chunk_summary q)
              + respContr_count (chunk_summary q) > ?n"
    if "\<exists>k < ?n. resp_with q k ''Contradiction'' \<noteq> []"
  proof -
    have "\<exists>k \<in> set [0..<?n]. resp_with q k ''Contradiction'' \<noteq> []" using that by auto
    then have "length (filter (\<lambda>k. resp_with q k ''Contradiction'' \<noteq> []) [0..<?n]) > 0"
      by (rule pos)
    then show ?thesis using q1 by (simp add: chunk_summary_counts)
  qed
  have fl: "f_unused (flags_of s) = (entailments (response s) = [])"
    "f_contradicting (flags_of s) = (contradictions (response s) \<noteq> [])" for s
    by (simp_all add: flags_of_def Let_def)
  show ?thesis
    using p1 p2 q1 q2
    by (simp add: fl response_sets summary_counts chunk_summary_counts)
qed

text \<open>The theorem at a question with one chunk that contradicts its one response claim.\<close>

theorem unused_ignores_contradictions_witness:
  "f_unused (flags_of (getClaimSetsForChunk
      \<lparr>retrieved_context = JArr [JStr ''c0''],
       retrieved2answer = JArr [],
       retrieved2response = JArr [JArr [JStr ''Contradiction'']],
       gtClaimsList = [], responseClaimsList = [''r0'']\<rparr> 0))
   \<and> f_contradicting (flags_of (getClaimSetsForChunk
      \<lparr>retrieved_context = JArr [JStr ''c0''],
       retrieved2answer = JArr [],
       retrieved2response = JArr [JArr [JStr ''Contradiction'']],
       gtClaimsList = [], responseClaimsList = [''r0'']\<rparr> 0))
   \<and> unused_count (chunk_summary
      \<lparr>retrieved_context = JArr [JStr ''c0''],
       retrieved2answer = JArr [],
       retrieved2response = JArr [JArr [JStr ''Contradiction'']],
       gtClaimsList = [], responseClaimsList = [''r0'']\<rparr>) = 1
   \<and> respContr_count (chunk_summary
      \<lparr>retrieved_context = JArr [JStr ''c0''],
       retrieved2answer = JArr [],
       retrieved2response = JArr [JArr [JStr ''Contradiction'']],
       gtClaimsList = [], responseClaimsList = [''r0'']\<rparr>) = 1
   \<and> grounded_count (chunk_summary
      \<lparr>retrieved_context = JArr [JStr ''c0''],
       retrieved2answer = JArr [],
       retrieved2response = JArr [JArr [JStr ''Contradiction'']],
       gtClaimsList = [], responseClaimsList = [''r0'']\<rparr>)
     + unused_count (chunk_summary
      \<lparr>retrieved_context = JArr [JStr ''c0''],
       retrieved2answer = JArr [],
       retrieved2response = JArr [JArr [JStr ''Contradiction'']],
       gtClaimsList = [], responseClaimsList = [''r0'']\<rparr>)
     + respContr_count (chunk_summary
      \<lparr>retrieved_context = JArr [JStr ''c0''],
       retrieved2answer = JArr [],
       retrieved2response = JArr [JArr [JStr ''Contradiction'']],
       gtClaimsList = [], responseClaimsList = [''r0'']\<rparr>) > 1"
proof -
  let ?q = "\<lparr>retrieved_context = JArr [JStr ''c0''],
       retrieved2answer = JArr [],
       retrieved2response = JArr [JArr [JStr ''Contradiction'']],
       gtClaimsList = [], responseClaimsList = [''r0'']\<rparr>"
  let ?s = "getClaimSetsForChunk ?q 0"
  let ?n = "array_length_or_0 (retrieved_context ?q)"
  note T = unused_ignores_contradictions [of ?s ?q 0 "[?s]"]
  have e: "resp_with ?q 0 ''Entailment'' = []" by code_simp
  have c: "resp_with ?q 0 ''Contradiction'' = [0]" by code_simp
  have n: "?n = 1" by (simp add: array_length_or_0_def)
  have ex: "\<exists>k < ?n. resp_with ?q k ''Contradiction'' \<noteq> []"
    unfolding n using c by (intro exI [of _ 0]) simp
  have "f_unused (flags_of ?s) = (resp_with ?q 0 ''Entailment'' = [])"
    using T by (elim conjE) assumption
  then have a: "f_unused (flags_of ?s)" unfolding e by simp
  have "f_contradicting (flags_of ?s) = (resp_with ?q 0 ''Contradiction'' \<noteq> [])"
    using T by (elim conjE) assumption
  then have b: "f_contradicting (flags_of ?s)" unfolding c by simp
  have "unused_count (chunk_summary ?q)
          = length (filter (\<lambda>k. resp_with ?q k ''Entailment'' = []) [0..<?n])"
    using T by (elim conjE) assumption
  then have u: "unused_count (chunk_summary ?q) = 1" unfolding n using e by simp
  have "respContr_count (chunk_summary ?q)
          = length (filter (\<lambda>k. resp_with ?q k ''Contradiction'' \<noteq> []) [0..<?n])"
    using T by (elim conjE) assumption
  then have r: "respContr_count (chunk_summary ?q) = 1" unfolding n using c by simp
  have "(\<exists>k < ?n. resp_with ?q k ''Contradiction'' \<noteq> [])
        \<longrightarrow> grounded_count (chunk_summary ?q) + unused_count (chunk_summary ?q)
              + respContr_count (chunk_summary ?q) > ?n"
    using T by (elim conjE) assumption
  then have "grounded_count (chunk_summary ?q) + unused_count (chunk_summary ?q)
              + respContr_count (chunk_summary ?q) > ?n"
    using ex by (rule mp)
  then have g: "grounded_count (chunk_summary ?q) + unused_count (chunk_summary ?q)
              + respContr_count (chunk_summary ?q) > 1"
    unfolding n .
  show ?thesis by (intro conjI a b u r g)
qed

lemma supportedByChunk_printed:
  assumes "\<forall>j < array_length_or_0 (retrieved_context q).
             \<exists>t. js_String expo (resolved (retrieved2response q) (retrieved_context q) j
                    (responseClaimsList q) i) = Inr t"
  shows "supportedByChunk expo q i =
           Inr (\<exists>j < array_length_or_0 (retrieved_context q).
                  \<exists>t. js_String expo (resolved (retrieved2response q) (retrieved_context q) j
                         (responseClaimsList q) i) = Inr t
                      \<and> casing_of t ''entailment'')"
proof -
  let ?rel = "\<lambda>j. resolved (retrieved2response q) (retrieved_context q) j (responseClaimsList q) i"
  let ?f = "\<lambda>j. case js_String expo (js_or (?rel j) (JStr [])) of
                   Inl e \<Rightarrow> Inl e
                 | Inr t \<Rightarrow> Inr (toLowerCase t = ''entailment'')"
  let ?n = "array_length_or_0 (retrieved_context q)"
  have f: "?f j = Inr (\<exists>t. js_String expo (?rel j) = Inr t \<and> casing_of t ''entailment'')"
    if jn: "j < ?n" for j
  proof -
    obtain t where t: "js_String expo (?rel j) = Inr t" using assms jn by blast
    obtain u where u: "js_String expo (js_or (?rel j) (JStr [])) = Inr u"
      "casing_of u ''entailment'' = casing_of t ''entailment''"
      using js_or_text [OF t] by blast
    show ?thesis by (simp add: t u lowered_words)
  qed
  have "first_match ?f [0..<?n] = Inr (\<exists>j \<in> set [0..<?n]. ?f j = Inr True)"
    by (rule first_match_all_Inr) (simp add: f)
  also have "(\<exists>j \<in> set [0..<?n]. ?f j = Inr True)
              = (\<exists>j < ?n. \<exists>t. js_String expo (?rel j) = Inr t \<and> casing_of t ''entailment'')"
    using f by auto
  finally show ?thesis
    by (simp add: supportedByChunk_def Let_def resolved_def)
qed

text \<open>
  Claim C10 (as amended). \<^verbatim>\<open>mapRelToStatus\<close> is case-insensitive: every string that is
  \<open>entailment\<close> in some casing maps to \<open>entailed\<close>, every string that is \<open>contradiction\<close>
  in some casing maps to \<open>contradiction\<close>, every other string maps to \<open>neutral\<close>, and so
  do \<^verbatim>\<open>null\<close> and \<^verbatim>\<open>undefined\<close>. Every other input that \<^verbatim>\<open>String\<close> converts is
  classified by its string form in the same way. On an input that \<^verbatim>\<open>String\<close> cannot
  convert the function throws. The scan that sets \<^verbatim>\<open>supportedByChunk\<close> for a response
  claim, when the relations it reads can be converted, succeeds exactly when the string
  form of some chunk's resolved relation is \<open>entailment\<close> in some casing.
\<close>

theorem mapRelToStatus_case_insensitive:
  "(casing_of s ''entailment'' \<longrightarrow> mapRelToStatus expo (JStr s) = Inr Entailed)
   \<and> (casing_of s ''contradiction'' \<longrightarrow> mapRelToStatus expo (JStr s) = Inr Contradiction)
   \<and> (\<not> casing_of s ''entailment'' \<and> \<not> casing_of s ''contradiction''
        \<longrightarrow> mapRelToStatus expo (JStr s) = Inr Neutral)
   \<and> mapRelToStatus expo JNull = Inr Neutral
   \<and> mapRelToStatus expo JUndefined = Inr Neutral
   \<and> (js_String expo rel = Inr t \<longrightarrow> mapRelToStatus expo rel = Inr (status_of_text t))
   \<and> (js_String expo rel = Inl e \<longrightarrow> mapRelToStatus expo rel = Inl e)
   \<and> ((\<forall>j < array_length_or_0 (retrieved_context q).
          \<exists>t. js_String expo (resolved (retrieved2response q) (retrieved_context q) j
                 (responseClaimsList q) i) = Inr t)
        \<longrightarrow> supportedByChunk expo q i =
             Inr (\<exists>j < array_length_or_0 (retrieved_context q).
                    \<exists>t. js_String expo (resolved (retrieved2response q) (retrieved_context q) j
                           (responseClaimsList q) i) = Inr t
                        \<and> casing_of t ''entailment''))"
proof (intro conjI impI)
  have len: "length ''entailment'' \<noteq> length ''contradiction''" by simp
  show "mapRelToStatus expo (JStr s) = Inr Entailed" if "casing_of s ''entailment''"
    using that by (simp add: mapRelToStatus_JStr status_of_text_def)
  show "mapRelToStatus expo (JStr s) = Inr Contradiction" if "casing_of s ''contradiction''"
  proof -
    have "\<not> casing_of s ''entailment''"
      using that len by (auto dest!: casing_length)
    then show ?thesis using that by (simp add: mapRelToStatus_JStr status_of_text_def)
  qed
  show "mapRelToStatus expo (JStr s) = Inr Neutral"
    if "\<not> casing_of s ''entailment'' \<and> \<not> casing_of s ''contradiction''"
    using that by (simp add: mapRelToStatus_JStr status_of_text_def)
  show "mapRelToStatus expo JNull = Inr Neutral" "mapRelToStatus expo JUndefined = Inr Neutral"
    by (rule mapRelToStatus_nullish)+
  show "mapRelToStatus expo rel = Inr (status_of_text t)" if "js_String expo rel = Inr t"
    using that by (rule mapRelToStatus_printed)
  show "mapRelToStatus expo rel = Inl e" if "js_String expo rel = Inl e"
    using that by (rule mapRelToStatus_throws)
  show "supportedByChunk expo q i =
             Inr (\<exists>j < array_length_or_0 (retrieved_context q).
                    \<exists>t. js_String expo (resolved (retrieved2response q) (retrieved_context q) j
                           (responseClaimsList q) i) = Inr t
                        \<and> casing_of t ''entailment'')"
    if "\<forall>j < array_length_or_0 (retrieved_context q).
          \<exists>t. js_String expo (resolved (retrieved2response q) (retrieved_context q) j
                 (responseClaimsList q) i) = Inr t"
    using that by (rule supportedByChunk_printed)
qed

text \<open>
  The theorem at labels in other casings, at a number, at an object that cannot be
  printed, and at a matrix with the cell \<open>ENTAILMENT\<close>.
\<close>

theorem mapRelToStatus_case_insensitive_witness:
  "mapRelToStatus show_int (JStr ''eNtAiLmEnT'') = Inr Entailed
   \<and> mapRelToStatus show_int (JStr ''CONTRADICTION'') = Inr Contradiction
   \<and> mapRelToStatus show_int (JStr ''supports'') = Inr Neutral
   \<and> mapRelToStatus show_int (JNum 7) = Inr Neutral
   \<and> mapRelToStatus show_int (JObj [(''toString'', JNum 1)]) = Inl TypeError
   \<and> supportedByChunk show_int
        \<lparr>retrieved_context = JArr [JStr ''c0'', JStr ''c1''],
         retrieved2answer = JArr [],
         retrieved2response = JArr [JArr [JStr ''Neutral''], JArr [JStr ''ENTAILMENT'']],
         gtClaimsList = [], responseClaimsList = [''r'']\<rparr> 0 = Inr True"
proof -
  let ?q = "\<lparr>retrieved_context = JArr [JStr ''c0'', JStr ''c1''],
         retrieved2answer = JArr [],
         retrieved2response = JArr [JArr [JStr ''Neutral''], JArr [JStr ''ENTAILMENT'']],
         gtClaimsList = [], responseClaimsList = [''r'']\<rparr>"
  let ?rel = "\<lambda>j. resolved (retrieved2response ?q) (retrieved_context ?q) j
                    (responseClaimsList ?q) 0"
  have c: "casing_of ''eNtAiLmEnT'' ''entailment''"
    "casing_of ''CONTRADICTION'' ''contradiction''"
    "\<not> casing_of ''supports'' ''entailment''" "\<not> casing_of ''supports'' ''contradiction''"
    "casing_of ''ENTAILMENT'' ''entailment''"
    by (simp_all add: casing_of_def same_letter_def)
  have s7: "js_String show_int (JNum 7) = Inr ''7''" "status_of_text ''7'' = Neutral"
    by code_simp+
  have ts: "js_String show_int (JObj [(''toString'', JNum 1)]) = Inl TypeError" by simp
  have n: "array_length_or_0 (retrieved_context ?q) = 2" by (simp add: array_length_or_0_def)
  have r: "?rel 0 = JStr ''Neutral''" "?rel 1 = JStr ''ENTAILMENT''" by code_simp+
  have all: "\<forall>j < array_length_or_0 (retrieved_context ?q). \<exists>t. js_String show_int (?rel j) = Inr t"
    unfolding n using r by (auto simp add: less_Suc_eq numeral_2_eq_2)
  have ex: "\<exists>j < array_length_or_0 (retrieved_context ?q).
              \<exists>t. js_String show_int (?rel j) = Inr t \<and> casing_of t ''entailment''"
    unfolding n using r(2) c(5) by (intro exI [of _ 1]) simp
  show ?thesis
    using mapRelToStatus_case_insensitive [of "''eNtAiLmEnT''" show_int "JNum 7" "''7''" TypeError ?q 0]
      mapRelToStatus_case_insensitive [of "''CONTRADICTION''" show_int
        "JObj [(''toString'', JNum 1)]" "''7''" TypeError ?q 0]
      mapRelToStatus_case_insensitive [of "''supports''" show_int "JNum 7" "''7''" TypeError ?q 0]
      c s7 ts all ex
    by simp
qed

text \<open>
  The claim as stated fails in that \<^verbatim>\<open>mapRelToStatus\<close> is not total: on an object with an
  own \<^verbatim>\<open>toString\<close> property, alone or inside an array, \<^verbatim>\<open>String\<close> throws a TypeError
  and so does the function, instead of returning \<open>neutral\<close>. The support scan throws on
  such a cell too.
\<close>

theorem mapRelToStatus_throws_counterexample:
  "mapRelToStatus show_int (JObj [(''toString'', JNum 1)]) = Inl TypeError
   \<and> mapRelToStatus show_int (JArr [JObj [(''toString'', JStr ''x'')]]) = Inl TypeError
   \<and> supportedByChunk show_int
        \<lparr>retrieved_context = JArr [JStr ''c0''],
         retrieved2answer = JArr [],
         retrieved2response = JArr [JArr [JObj [(''toString'', JNum 1)]]],
         gtClaimsList = [], responseClaimsList = [''r'']\<rparr> 0 = Inl TypeError"
  by code_simp

section \<open>Properties of the hover selection\<close>

lemma set_positions: "set (positions P ps) = {k. k < length ps \<and> P (ps ! k)}"
  by (auto simp add: positions_def)

lemma foldl_set_add:
  "set (foldl (\<lambda>acc x. if x \<in> set acc then acc else acc @ [x]) acc xs) = set acc \<union> set xs"
  by (induction xs arbitrary: acc) auto

lemma foldl_set_add_distinct:
  "distinct acc \<Longrightarrow> distinct (foldl (\<lambda>acc x. if x \<in> set acc then acc else acc @ [x]) acc xs)"
  by (induction xs arbitrary: acc) auto

lemma set_array_from_set: "set (array_from_set xs) = set xs"
  by (simp add: array_from_set_def foldl_set_add)

lemma distinct_array_from_set: "distinct (array_from_set xs)"
  by (simp add: array_from_set_def foldl_set_add_distinct)

lemma chunk_index_of_iff:
  "0 \<le> c \<Longrightarrow> (chunk_index_of e = c) = (case e of Some n \<Rightarrow> col n = ColChunk \<and> index n = c | None \<Rightarrow> False)"
  by (auto simp add: chunk_index_of_def split: option.splits)

lemma set_chunk_indices:
  "set (chunk_indices e ps direct)
     = {c. 0 \<le> c \<and> (\<exists>d \<in> set direct. chunk_index_of (e (ps ! d)) = c)}"
  by (auto simp add: chunk_indices_def)

lemma set_chunk_indices_dst:
  "set (chunk_indices dst ps direct) = {c. 0 \<le> c \<and> (\<exists>d \<in> set direct. dst_is ColChunk c (ps ! d))}"
  unfolding set_chunk_indices dst_is_def
  by (simp add: chunk_index_of_iff cong: conj_cong)

lemma set_chunk_indices_src:
  "set (chunk_indices src ps direct) = {c. 0 \<le> c \<and> (\<exists>d \<in> set direct. src_is ColChunk c (ps ! d))}"
  unfolding set_chunk_indices src_is_def
  by (simp add: chunk_index_of_iff cong: conj_cong)

lemma end_in_chunks_src: "end_in_chunks src cs p = (\<exists>c \<in> set cs. src_is ColChunk c p)"
  by (auto simp add: end_in_chunks_def src_is_def split: option.splits)

lemma end_in_chunks_dst: "end_in_chunks dst cs p = (\<exists>c \<in> set cs. dst_is ColChunk c p)"
  by (auto simp add: end_in_chunks_def dst_is_def split: option.splits)

lemma touches_chunk:
  "touches \<lparr>col = ColChunk, index = c\<rparr> p = (src_is ColChunk c p \<or> dst_is ColChunk c p)"
  by (auto simp add: touches_def src_is_def dst_is_def split: option.splits)

lemma set_hover_gt:
  "set (hover_gt ps g) =
     {k. k < length ps \<and>
         (src_is ColGt (int g) (ps ! k)
          \<or> (\<exists>d < length ps. \<exists>c \<ge> 0.
                src_is ColGt (int g) (ps ! d) \<and> dst_is ColChunk c (ps ! d)
                \<and> src_is ColChunk c (ps ! k)))}"
  by (auto simp add: hover_gt_def Let_def set_array_from_set set_positions
      set_chunk_indices_dst end_in_chunks_src)

lemma set_hover_resp:
  "set (hover_resp ps r) =
     {k. k < length ps \<and>
         (dst_is ColResp (int r) (ps ! k)
          \<or> (\<exists>d < length ps. \<exists>c \<ge> 0.
                dst_is ColResp (int r) (ps ! d) \<and> src_is ColChunk c (ps ! d)
                \<and> dst_is ColChunk c (ps ! k)))}"
  by (auto simp add: hover_resp_def Let_def set_array_from_set set_positions
      set_chunk_indices_src end_in_chunks_dst)

text \<open>The paths store the index of the element, not its position.\<close>

lemma gt_paths_ends:
  assumes "p \<in> set (gt_paths q gtNodes chunkNodes)"
  shows "\<exists>v < length gtNodes. \<exists>i < length chunkNodes.
           src p = Some \<lparr>col = ColGt, index = node_index gtNodes v\<rparr>
           \<and> dst p = Some \<lparr>col = ColChunk, index = node_index chunkNodes i\<rparr>"
  using assms
  by (fastforce simp add: gt_paths_def Let_def gt_to_chunk_def split: if_splits)

lemma resp_paths_ends:
  assumes "p \<in> set (resp_paths q respNodes chunkNodes)"
  shows "\<exists>v < length respNodes. \<exists>i < length chunkNodes.
           src p = Some \<lparr>col = ColChunk, index = node_index chunkNodes i\<rparr>
           \<and> dst p = Some \<lparr>col = ColResp, index = node_index respNodes v\<rparr>"
  using assms
  by (fastforce simp add: resp_paths_def Let_def chunk_to_resp_def split: if_splits)

text \<open>
  Claim C7 (as amended). Take a rendered ground-truth claim whose position among the
  rendered claims is its claim index. Hovering it selects the paths that leave that
  claim, together with the chunk-to-response paths that leave a chunk (of index at least
  0) reached by one of those. Hovering such a response claim selects the paths that
  arrive at it, together with the paths from a ground-truth claim that arrive at a chunk
  one of those leaves. Hovering a chunk, identified by its chunk index, selects the paths
  that touch it and nothing more. Each selection lists a path once.
\<close>

theorem hover_selection:
  "(pos < length gtNodes \<and> node_index gtNodes pos = int pos \<longrightarrow>
      set (hover_gt pathsOut pos) =
        {k. k < length pathsOut \<and>
            (src_is ColGt (node_index gtNodes pos) (pathsOut ! k)
             \<or> (\<exists>d < length pathsOut. \<exists>c \<ge> 0.
                   src_is ColGt (node_index gtNodes pos) (pathsOut ! d)
                   \<and> dst_is ColChunk c (pathsOut ! d)
                   \<and> src_is ColChunk c (pathsOut ! k)))})
   \<and> distinct (hover_gt pathsOut pos)
   \<and> hover_chunk pathsOut c
       = filter (\<lambda>k. touches \<lparr>col = ColChunk, index = c\<rparr> (pathsOut ! k)) [0..<length pathsOut]
   \<and> (pos < length respNodes \<and> node_index respNodes pos = int pos \<longrightarrow>
      set (hover_resp pathsOut pos) =
        {k. k < length pathsOut \<and>
            (dst_is ColResp (node_index respNodes pos) (pathsOut ! k)
             \<or> (\<exists>d < length pathsOut. \<exists>c \<ge> 0.
                   dst_is ColResp (node_index respNodes pos) (pathsOut ! d)
                   \<and> src_is ColChunk c (pathsOut ! d)
                   \<and> dst_is ColChunk c (pathsOut ! k)))})
   \<and> distinct (hover_resp pathsOut pos)"
proof (intro conjI impI)
  show "distinct (hover_gt pathsOut pos)" "distinct (hover_resp pathsOut pos)"
    by (simp_all add: hover_gt_def hover_resp_def Let_def distinct_array_from_set)
  show "hover_chunk pathsOut c
       = filter (\<lambda>k. touches \<lparr>col = ColChunk, index = c\<rparr> (pathsOut ! k)) [0..<length pathsOut]"
    by (simp add: hover_chunk_def positions_def touches_chunk)
  show "set (hover_gt pathsOut pos) =
        {k. k < length pathsOut \<and>
            (src_is ColGt (node_index gtNodes pos) (pathsOut ! k)
             \<or> (\<exists>d < length pathsOut. \<exists>c \<ge> 0.
                   src_is ColGt (node_index gtNodes pos) (pathsOut ! d)
                   \<and> dst_is ColChunk c (pathsOut ! d)
                   \<and> src_is ColChunk c (pathsOut ! k)))}"
    if "pos < length gtNodes \<and> node_index gtNodes pos = int pos"
    using that by (simp add: set_hover_gt)
  show "set (hover_resp pathsOut pos) =
        {k. k < length pathsOut \<and>
            (dst_is ColResp (node_index respNodes pos) (pathsOut ! k)
             \<or> (\<exists>d < length pathsOut. \<exists>c \<ge> 0.
                   dst_is ColResp (node_index respNodes pos) (pathsOut ! d)
                   \<and> src_is ColChunk c (pathsOut ! d)
                   \<and> dst_is ColChunk c (pathsOut ! k)))}"
    if "pos < length respNodes \<and> node_index respNodes pos = int pos"
    using that by (simp add: set_hover_resp)
qed

text \<open>
  The theorem at the paths built for two chunks, two ground-truth claims that chunk 0
  entails, and two response claims, one entailed by chunk 0 and one contradicted by
  chunk 1, all rendered.
\<close>

theorem hover_selection_witness:
  "set (hover_gt (build_paths
      \<lparr>retrieved_context = JArr [JStr ''c0'', JStr ''c1''],
       retrieved2answer = JArr [JArr [JStr ''Entailment'', JStr ''Entailment''],
                                JArr [JStr ''Neutral'', JStr ''Neutral'']],
       retrieved2response = JArr [JArr [JStr ''Entailment'', JStr ''Neutral''],
                                  JArr [JStr ''Neutral'', JStr ''Contradiction'']],
       gtClaimsList = [''g0'', ''g1''], responseClaimsList = [''r0'', ''r1'']\<rparr>
      [Some 0, Some 1] [Some 0, Some 1] [Some 0, Some 1]) 0) = {0, 2}
   \<and> set (hover_resp (build_paths
      \<lparr>retrieved_context = JArr [JStr ''c0'', JStr ''c1''],
       retrieved2answer = JArr [JArr [JStr ''Entailment'', JStr ''Entailment''],
                                JArr [JStr ''Neutral'', JStr ''Neutral'']],
       retrieved2response = JArr [JArr [JStr ''Entailment'', JStr ''Neutral''],
                                  JArr [JStr ''Neutral'', JStr ''Contradiction'']],
       gtClaimsList = [''g0'', ''g1''], responseClaimsList = [''r0'', ''r1'']\<rparr>
      [Some 0, Some 1] [Some 0, Some 1] [Some 0, Some 1]) 0) = {0, 1, 2}"
proof -
  let ?q = "\<lparr>retrieved_context = JArr [JStr ''c0'', JStr ''c1''],
       retrieved2answer = JArr [JArr [JStr ''Entailment'', JStr ''Entailment''],
                                JArr [JStr ''Neutral'', JStr ''Neutral'']],
       retrieved2response = JArr [JArr [JStr ''Entailment'', JStr ''Neutral''],
                                  JArr [JStr ''Neutral'', JStr ''Contradiction'']],
       gtClaimsList = [''g0'', ''g1''], responseClaimsList = [''r0'', ''r1'']\<rparr>"
  let ?nodes = "[Some 0, Some 1] :: dom_node list"
  let ?ps = "build_paths ?q ?nodes ?nodes ?nodes"
  have n: "0 < length ?nodes \<and> node_index ?nodes 0 = int 0" by (simp add: node_index_def)
  have g: "hover_gt ?ps 0 = [0, 2]" by code_simp
  have r: "hover_resp ?ps 0 = [2, 0, 1]" by code_simp
  have "set (hover_gt ?ps 0) = set [0, 2]" using g by simp
  moreover have "set (hover_resp ?ps 0) = set [2, 0, 1]" using r by simp
  ultimately show ?thesis
    using hover_selection [of 0 ?nodes ?ps 0 ?nodes] n by auto
qed

text \<open>
  The claim as stated fails, with every claim and chunk rendered. With two ground-truth
  claims connected to chunk 0, hovering the first selects its own path only, although
  the other path touches chunk 0, which is one hop away. With one claim connected to
  chunks 0 and 1, hovering chunk 0 selects the path into chunk 0 only, although the
  other path touches the claim.
\<close>

theorem hover_two_hop_counterexample:
  "build_paths
      \<lparr>retrieved_context = JArr [JStr ''c0''],
       retrieved2answer = JArr [JArr [JStr ''Entailment'', JStr ''Entailment'']],
       retrieved2response = JArr [],
       gtClaimsList = [''g0'', ''g1''], responseClaimsList = []\<rparr>
      [Some 0, Some 1] [Some 0] []
     = [gt_to_chunk (JStr ''Entailment'') 0 0, gt_to_chunk (JStr ''Entailment'') 1 0]
   \<and> hover_gt [gt_to_chunk (JStr ''Entailment'') 0 0, gt_to_chunk (JStr ''Entailment'') 1 0] 0
       = [0]
   \<and> 1 \<in> two_hop_spec
            [gt_to_chunk (JStr ''Entailment'') 0 0, gt_to_chunk (JStr ''Entailment'') 1 0]
            \<lparr>col = ColGt, index = 0\<rparr>
   \<and> build_paths
      \<lparr>retrieved_context = JArr [JStr ''c0'', JStr ''c1''],
       retrieved2answer = JArr [JArr [JStr ''Entailment''], JArr [JStr ''Entailment'']],
       retrieved2response = JArr [],
       gtClaimsList = [''g0''], responseClaimsList = []\<rparr>
      [Some 0] [Some 0, Some 1] []
     = [gt_to_chunk (JStr ''Entailment'') 0 0, gt_to_chunk (JStr ''Entailment'') 0 1]
   \<and> hover_chunk [gt_to_chunk (JStr ''Entailment'') 0 0, gt_to_chunk (JStr ''Entailment'') 0 1] 0
       = [0]
   \<and> 1 \<in> two_hop_spec
            [gt_to_chunk (JStr ''Entailment'') 0 0, gt_to_chunk (JStr ''Entailment'') 0 1]
            \<lparr>col = ColChunk, index = 0\<rparr>"
  by code_simp

text \<open>
  When a filter hides ground-truth claim 0, claim 1 is the only rendered claim, at
  position 0. Its path stores the index 1, the selection compares with the position 0,
  and hovering the claim selects nothing.
\<close>

lemma hover_position_slip:
  "build_paths
      \<lparr>retrieved_context = JArr [JStr ''c0''],
       retrieved2answer = JArr [JArr [JStr ''Neutral'', JStr ''Entailment'']],
       retrieved2response = JArr [],
       gtClaimsList = [''g0'', ''g1''], responseClaimsList = []\<rparr>
      [Some 1] [Some 0] []
     = [gt_to_chunk (JStr ''Entailment'') 1 0]
   \<and> hover_gt [gt_to_chunk (JStr ''Entailment'') 1 0] 0 = []"
  by code_simp

section \<open>Properties of the claim extraction\<close>

lemma funpow_fixed: "f x = x \<Longrightarrow> (f ^^ n) x = x"
  by (induction n) simp_all

lemma strip_front_none:
  assumes "match_len ws s = 0"
  shows "strip_front ws s = s"
  unfolding strip_front_def using assms by (intro funpow_fixed) simp

lemma match_len_front:
  assumes "\<forall>w \<in> set ws. w \<noteq> [] \<and> hd w \<noteq> c"
  shows "match_len ws (c # cs) = 0"
proof -
  have "find (\<lambda>w. take (length w) (c # cs) = w) ws = None"
  proof (simp only: find_None_iff, intro notI)
    assume "\<exists>w. w \<in> set ws \<and> take (length w) (c # cs) = w"
    then obtain w where w: "w \<in> set ws" "take (length w) (c # cs) = w" by blast
    then have "w \<noteq> []" "hd w \<noteq> c" using assms by auto
    then show False using w(2) by (cases w) auto
  qed
  then show ?thesis by (simp add: match_len_def)
qed

lemma white_space_heads:
  "\<forall>w \<in> set white_space. w \<noteq> [] \<and> hd w \<noteq> CHR ''[''"
  "\<forall>w \<in> set (map rev white_space). w \<noteq> [] \<and> hd w \<noteq> CHR '']''"
  by (simp_all add: white_space_def)

lemma trim_bracketed:
  assumes "startsWith s CHR ''[''" and "endsWith s CHR '']''"
  shows "trim s = s" and "bracketed s" and "s \<noteq> []"
proof -
  have ne: "s \<noteq> []" using assms(2) by (simp add: endsWith_def)
  obtain cs where s: "s = CHR ''['' # cs"
    using assms(1) by (cases s) (simp_all add: startsWith_def)
  have "rev s \<noteq> []" "hd (rev s) = CHR '']''"
    using assms(2) ne by (simp_all add: endsWith_def hd_rev)
  then obtain ds where r: "rev s = CHR '']'' # ds" by (cases "rev s") simp_all
  have front: "strip_front white_space s = s"
    unfolding s by (intro strip_front_none match_len_front white_space_heads)
  have rear: "strip_front (map rev white_space) (rev s) = rev s"
    unfolding r by (intro strip_front_none match_len_front white_space_heads)
  show "trim s = s" by (simp add: trim_def front rear)
  show "bracketed s" using assms by (simp add: bracketed_def)
  show "s \<noteq> []" by (rule ne)
qed

lemma extract_array_strings:
  "extract_array expo (map JStr a) = Inr (filter (\<lambda>x. length (trim x) > 0) a)"
proof -
  have "map (claim_of_item expo) (map JStr a) = map Inr (map (\<lambda>x. [JStr x]) a)"
    by (simp add: claim_of_item_def)
  then have "all_ok (map (claim_of_item expo) (map JStr a)) = Inr (map (\<lambda>x. [JStr x]) a)"
    by (simp only: all_ok_map_Inr)
  moreover have "nonblank_strings (concat (map (\<lambda>x. [JStr x]) a))
                 = filter (\<lambda>x. length (trim x) > 0) a"
    by (induction a) (simp_all add: nonblank_strings_def)
  ultimately show ?thesis by (simp add: extract_array_def)
qed

lemma extractClaims_JArr:
  "extractClaims expo parse (JArr items)
     = (case extract_array expo items of Inr out \<Rightarrow> Some out | Inl e \<Rightarrow> Some [])"
  by (subst extractClaims.simps) (simp add: truthy_def)

lemma extractClaims_parsed:
  assumes "startsWith s CHR ''[''" and "endsWith s CHR '']''" and "parse s = Inr v"
  shows "extractClaims expo parse (JStr s) = extractClaims expo parse v"
  using trim_bracketed [OF assms(1,2)] assms(3)
  by (subst extractClaims.simps) (simp add: truthy_def Let_def)

text \<open>
  Claim C8. \<^verbatim>\<open>JSON.stringify\<close> and \<^verbatim>\<open>JSON.parse\<close> are the platform's, the parameters
  \<open>stringify\<close> and \<open>parse\<close>; of them the statement assumes that the text of an array
  starts with \<open>[\<close> and ends with \<open>]\<close>, and that parsing the text of an array of strings
  gives the array back. Then for every array of strings \<open>a\<close>, \<^verbatim>\<open>extractClaims\<close> returns
  for the text of \<open>a\<close> what it returns for \<open>a\<close>: the strings of \<open>a\<close> that are not blank,
  in order.
\<close>

theorem extractClaims_roundtrip:
  assumes "startsWith (stringify a) CHR ''[''" and "endsWith (stringify a) CHR '']''"
    and "parse (stringify a) = Inr (JArr (map JStr a))"
  shows "extractClaims expo parse (JStr (stringify a))
           = extractClaims expo parse (JArr (map JStr a))
       \<and> extractClaims expo parse (JArr (map JStr a))
           = Some (filter (\<lambda>x. length (trim x) > 0) a)"
  using extractClaims_parsed [of "stringify a" parse, OF assms]
  by (simp add: extractClaims_JArr extract_array_strings)

text \<open>The theorem at an array of three strings, one of them blank.\<close>

theorem extractClaims_roundtrip_witness:
  \<open>extractClaims show_int
     (\<lambda>t. if t = ''["a"," ","b c"]'' then Inr (JArr [JStr ''a'', JStr '' '', JStr ''b c''])
          else Inl SyntaxError)
     (JStr ''["a"," ","b c"]'') = Some [''a'', ''b c'']
   \<and> extractClaims show_int
     (\<lambda>t. if t = ''["a"," ","b c"]'' then Inr (JArr [JStr ''a'', JStr '' '', JStr ''b c''])
          else Inl SyntaxError)
     (JArr [JStr ''a'', JStr '' '', JStr ''b c'']) = Some [''a'', ''b c'']\<close>
proof -
  let ?parse = \<open>\<lambda>t. if t = ''["a"," ","b c"]''
                     then Inr (JArr [JStr ''a'', JStr '' '', JStr ''b c''])
                     else Inl SyntaxError :: js_error + jsval\<close>
  let ?stringify = \<open>\<lambda>a :: string list. ''['' @ join '','' (map (\<lambda>x. ''"'' @ x @ ''"'') a) @ '']''\<close>
  have s: \<open>?stringify [''a'', '' '', ''b c''] = ''["a"," ","b c"]''\<close> by simp
  have t: "filter (\<lambda>x. length (trim x) > 0) [''a'', '' '', ''b c''] = [''a'', ''b c'']"
    by code_simp
  show ?thesis
    using extractClaims_roundtrip [of ?stringify "[''a'', '' '', ''b c'']" ?parse show_int]
    unfolding s t
    by (simp add: startsWith_def endsWith_def)
qed

text \<open>A no-break space and a space make a blank string.\<close>

lemma trim_nbsp: "trim [CHR 0xC2, CHR 0xA0, CHR 0x20] = []"
  by code_simp

end
